theory Spec2Isabelle
  imports Main
begin

section \<open>Text and character classes\<close>

text \<open>
  The analysed file is read as UTF-8 into a Python \<open>str\<close>, a sequence of code points.
  A text is modelled as a \<open>string\<close> whose \<open>char\<close> number \<open>n\<close> is the code point
  \<open>n\<close>, so the model covers texts whose code points are below 256. The classes below
  are the ones Python's \<open>re\<close> uses for \<open>str\<close> patterns on that range: \<open>\s\<close> is
  \<open>str.isspace\<close>, \<open>\w\<close> is \<open>str.isalnum\<close> or the underscore.
\<close>

definition is_space :: "char \<Rightarrow> bool" where
  "is_space c =
     (let n = (of_char c :: nat)
      in (9 \<le> n \<and> n \<le> 13) \<or> (28 \<le> n \<and> n \<le> 32) \<or> n = 133 \<or> n = 160)"

definition is_word :: "char \<Rightarrow> bool" where
  "is_word c =
     (let n = (of_char c :: nat)
      in (48 \<le> n \<and> n \<le> 57) \<or> (65 \<le> n \<and> n \<le> 90) \<or> n = 95 \<or> (97 \<le> n \<and> n \<le> 122)
         \<or> n = 170 \<or> n = 178 \<or> n = 179 \<or> n = 181 \<or> n = 185 \<or> n = 186
         \<or> (188 \<le> n \<and> n \<le> 190) \<or> (192 \<le> n \<and> n \<le> 214) \<or> (216 \<le> n \<and> n \<le> 246)
         \<or> 248 \<le> n)"

text \<open>\<open>str.lower\<close>, one code point at a time (below 256 it never changes the length).\<close>

definition to_lower :: "char \<Rightarrow> char" where
  "to_lower c =
     (let n = (of_char c :: nat)
      in if (65 \<le> n \<and> n \<le> 90) \<or> (192 \<le> n \<and> n \<le> 222 \<and> n \<noteq> 215)
         then char_of (n + 32) else c)"

definition lower :: "string \<Rightarrow> string" where
  "lower s = map to_lower s"

text \<open>Python's \<open>w in s\<close> on strings: \<open>w\<close> occurs in \<open>s\<close> as a contiguous piece.\<close>

fun starts_with :: "string \<Rightarrow> string \<Rightarrow> bool" where
  "starts_with [] s = True"
| "starts_with (x # w) [] = False"
| "starts_with (x # w) (y # s) = (x = y \<and> starts_with w s)"

fun str_in :: "string \<Rightarrow> string \<Rightarrow> bool" where
  "str_in w [] = (w = [])"
| "str_in w (y # s) = (starts_with w (y # s) \<or> str_in w s)"

section \<open>Regular expressions as \<open>re\<close> matches them\<close>

text \<open>
  The constructs the program's eight patterns use. \<open>Lit\<close> is a run of literal
  characters, \<open>Dot\<close> is \<open>.\<close>, \<open>Space\<close> is \<open>\s\<close>, \<open>Word\<close> is \<open>\w\<close>, \<open>NotChr c\<close> is
  \<open>[^c]\<close>, \<open>Star\<close> is the greedy \<open>*\<close>, \<open>StarLazy\<close> is \<open>*?\<close>, \<open>Group\<close> is a capturing
  group; \<open>(?:...)\<close> only brackets and has no constructor. No pattern has an anchor, so
  \<open>re.MULTILINE\<close> changes nothing.
\<close>

datatype flag = IGNORECASE | MULTILINE | DOTALL

datatype regex =
    Lit string
  | Dot
  | Space
  | Word
  | NotChr char
  | Seq regex regex
  | Alt regex regex
  | Star regex
  | StarLazy regex
  | Group regex

abbreviation Plus :: "regex \<Rightarrow> regex" where
  "Plus r \<equiv> Seq r (Star r)"

fun Seqs :: "regex list \<Rightarrow> regex" where
  "Seqs [] = Lit []"
| "Seqs [r] = r"
| "Seqs (r # rs) = Seq r (Seqs rs)"

definition chr_eq :: "flag list \<Rightarrow> char \<Rightarrow> char \<Rightarrow> bool" where
  "chr_eq fl p c = (if IGNORECASE \<in> set fl then to_lower p = to_lower c else p = c)"

fun lit_match :: "flag list \<Rightarrow> string \<Rightarrow> string \<Rightarrow> bool" where
  "lit_match fl [] s = True"
| "lit_match fl (p # w) [] = False"
| "lit_match fl (p # w) (c # s) = (chr_eq fl p c \<and> lit_match fl w s)"

text \<open>
  \<open>ms fl r s\<close> lists every way \<open>r\<close> matches at the start of \<open>s\<close>, in the order in which
  the backtracking matcher tries them: each entry is the captured groups (outermost
  first) and the text left over. The matcher's answer is the first entry. A repetition
  stops at an iteration that consumes nothing. In the program's patterns no group
  stands under a repetition or an alternative.
\<close>

function ms :: "flag list \<Rightarrow> regex \<Rightarrow> string \<Rightarrow> (string list \<times> string) list" where
  "ms fl (Lit w) s = (if lit_match fl w s then [([], drop (length w) s)] else [])"
| "ms fl Dot s =
     (case s of [] \<Rightarrow> []
      | c # t \<Rightarrow> if DOTALL \<in> set fl \<or> c \<noteq> CHR 0x0A then [([], t)] else [])"
| "ms fl Space s = (case s of [] \<Rightarrow> [] | c # t \<Rightarrow> if is_space c then [([], t)] else [])"
| "ms fl Word s = (case s of [] \<Rightarrow> [] | c # t \<Rightarrow> if is_word c then [([], t)] else [])"
| "ms fl (NotChr x) s = (case s of [] \<Rightarrow> [] | c # t \<Rightarrow> if c \<noteq> x then [([], t)] else [])"
| "ms fl (Seq a b) s =
     concat (map (\<lambda>m. map (\<lambda>n. (fst m @ fst n, snd n)) (ms fl b (snd m))) (ms fl a s))"
| "ms fl (Alt a b) s = ms fl a s @ ms fl b s"
| "ms fl (Star a) s =
     concat (map (\<lambda>m. if length (snd m) < length s
                       then map (\<lambda>n. (fst m @ fst n, snd n)) (ms fl (Star a) (snd m))
                       else [])
                 (ms fl a s))
     @ [([], s)]"
| "ms fl (StarLazy a) s =
     ([], s) #
     concat (map (\<lambda>m. if length (snd m) < length s
                       then map (\<lambda>n. (fst m @ fst n, snd n)) (ms fl (StarLazy a) (snd m))
                       else [])
                 (ms fl a s))"
| "ms fl (Group a) s = map (\<lambda>m. (take (length s - length (snd m)) s # fst m, snd m)) (ms fl a s)"
  by pat_completeness auto
termination
  by (relation "measures [\<lambda>(fl, r, s). size r, \<lambda>(fl, r, s). length s]") auto

text \<open>
  The two repetitions unfold into themselves, so their equations are used one step at a
  time. A match leaves a text that is no longer than the one it started on.
\<close>

declare ms.simps(8,9) [simp del]

lemma in_ms_Star:
  "(c, t) \<in> set (ms fl (Star a) s) \<longleftrightarrow>
     (c = [] \<and> t = s) \<or>
     (\<exists>c1 t1 c2. (c1, t1) \<in> set (ms fl a s) \<and> length t1 < length s \<and>
        (c2, t) \<in> set (ms fl (Star a) t1) \<and> c = c1 @ c2)"
  by (subst ms.simps(8)) (force split: if_splits)

lemma in_ms_StarLazy:
  "(c, t) \<in> set (ms fl (StarLazy a) s) \<longleftrightarrow>
     (c = [] \<and> t = s) \<or>
     (\<exists>c1 t1 c2. (c1, t1) \<in> set (ms fl a s) \<and> length t1 < length s \<and>
        (c2, t) \<in> set (ms fl (StarLazy a) t1) \<and> c = c1 @ c2)"
  by (subst ms.simps(9)) (force split: if_splits)

lemma in_ms_Seq:
  "(c, t) \<in> set (ms fl (Seq a b) s) \<longleftrightarrow>
     (\<exists>c1 t1 c2. (c1, t1) \<in> set (ms fl a s) \<and> (c2, t) \<in> set (ms fl b t1) \<and> c = c1 @ c2)"
  by force

lemma in_ms_Group:
  "(c, t) \<in> set (ms fl (Group a) s) \<longleftrightarrow>
     (\<exists>c'. (c', t) \<in> set (ms fl a s) \<and> c = take (length s - length t) s # c')"
  by force

lemma ms_shorter: "(c, t) \<in> set (ms fl r s) \<Longrightarrow> length t \<le> length s"
proof (induction fl r s arbitrary: c t rule: ms.induct)
  case (1 fl w s)
  then show ?case by (simp split: if_splits)
next
  case (2 fl s)
  then show ?case by (cases s) (simp_all split: if_splits)
next
  case (3 fl s)
  then show ?case by (cases s) (simp_all split: if_splits)
next
  case (4 fl s)
  then show ?case by (cases s) (simp_all split: if_splits)
next
  case (5 fl x s)
  then show ?case by (cases s) (simp_all split: if_splits)
next
  case (6 fl a b s)
  from "6.prems" obtain c1 t1 c2 where x: "(c1, t1) \<in> set (ms fl a s)"
    and y: "(c2, t) \<in> set (ms fl b t1)"
    unfolding in_ms_Seq by blast
  have "length t \<le> length t1" using "6.IH"(2)[of "(c1, t1)"] x y by simp
  moreover have "length t1 \<le> length s" using "6.IH"(1) x by blast
  ultimately show ?case by simp
next
  case (7 fl a b s)
  from "7.prems" have "(c, t) \<in> set (ms fl a s) \<or> (c, t) \<in> set (ms fl b s)" by simp
  then show ?case using "7.IH" by blast
next
  case (8 fl a s)
  from "8.prems" consider "t = s"
    | c1 t1 c2 where "(c1, t1) \<in> set (ms fl a s)" "length t1 < length s"
        "(c2, t) \<in> set (ms fl (Star a) t1)"
    by (subst (asm) in_ms_Star) blast
  then show ?case
  proof cases
    case 1
    then show ?thesis by simp
  next
    case 2
    have "length t \<le> length t1" using "8.IH"(2)[of "(c1, t1)"] 2 by simp
    with 2 show ?thesis by simp
  qed
next
  case (9 fl a s)
  from "9.prems" consider "t = s"
    | c1 t1 c2 where "(c1, t1) \<in> set (ms fl a s)" "length t1 < length s"
        "(c2, t) \<in> set (ms fl (StarLazy a) t1)"
    by (subst (asm) in_ms_StarLazy) blast
  then show ?case
  proof cases
    case 1
    then show ?thesis by simp
  next
    case 2
    have "length t \<le> length t1" using "9.IH"(2)[of "(c1, t1)"] 2 by simp
    with 2 show ?thesis by simp
  qed
next
  case (10 fl a s)
  from "10.prems" obtain c' where "(c', t) \<in> set (ms fl a s)" unfolding in_ms_Group by blast
  then show ?case using "10.IH" by blast
qed

text \<open>
  \<open>re.findall\<close> scans from the left. At each place it takes the matcher's first answer;
  after a match it goes on from the end of the match, and where nothing matches it moves
  one character on. After an empty match the next attempt at the same place must
  consume something (\<open>adv\<close>). Each entry is the matched text and its groups.
\<close>

function findall_from :: "flag list \<Rightarrow> regex \<Rightarrow> string \<Rightarrow> bool \<Rightarrow> (string \<times> string list) list" where
  "findall_from fl r s adv =
     (case filter (\<lambda>m. \<not> adv \<or> length (snd m) < length s) (ms fl r s) of
        [] \<Rightarrow> (case s of [] \<Rightarrow> [] | c # t \<Rightarrow> findall_from fl r t False)
      | m # ms' \<Rightarrow>
          (take (length s - length (snd m)) s, fst m)
          # findall_from fl r (snd m) (length (snd m) = length s))"
  by pat_completeness auto
termination
proof (relation "measure (\<lambda>(fl, r, s, adv). 2 * length s + (if adv then 0 else 1))", goal_cases)
  case 1
  show ?case by simp
next
  case (2 fl r s adv c t)
  then show ?case by simp
next
  case (3 fl r s adv m ms')
  then have mem: "m \<in> set (filter (\<lambda>m. \<not> adv \<or> length (snd m) < length s) (ms fl r s))"
    by simp
  then have le: "length (snd m) \<le> length s"
    using ms_shorter [of "fst m" "snd m" fl r s] by simp
  from mem have "\<not> adv \<or> length (snd m) < length s" by simp
  with le show ?case by auto
qed

text \<open>
  What \<open>re.findall\<close> returns for a pattern with no group (the matched texts), with one
  group (that group) and with two groups (the pair of groups).
\<close>

definition findall :: "flag list \<Rightarrow> regex \<Rightarrow> string \<Rightarrow> string list" where
  "findall fl r s =
     map (\<lambda>(whole, groups). case groups of [] \<Rightarrow> whole | g # _ \<Rightarrow> g) (findall_from fl r s False)"

definition findall2 :: "flag list \<Rightarrow> regex \<Rightarrow> string \<Rightarrow> (string \<times> string) list" where
  "findall2 fl r s =
     map (\<lambda>(whole, groups). case groups of [g1, g2] \<Rightarrow> (g1, g2) | _ \<Rightarrow> ([], []))
       (findall_from fl r s False)"

section \<open>The eight recognizers of \<open>analyze_test_file\<close>\<close>

definition test_methods_re :: regex where
  "test_methods_re =
     Seqs [Lit ''@Test'', Plus Space,
           Star (Seqs [Lit ''@'', Plus Word, Lit ''('', StarLazy Dot, Lit '')'', Plus Space]),
           Star (Seqs [Lit ''@'', Plus Word, Plus Space]),
           Plus Word, Plus Space, Lit ''void'', Plus Space, Group (Plus Word)]"

definition nested_classes_re :: regex where
  \<open>nested_classes_re =
     Seqs [Lit ''@Nested'', Plus Space, Lit ''@DisplayName("'',
           Group (Plus (NotChr (CHR ''"''))), Lit ''")'', Plus Space,
           Lit ''class'', Plus Space, Group (Plus Word)]\<close>

definition helper_methods_re :: regex where
  "helper_methods_re =
     Seqs [Lit ''private'', Plus Space, Plus Word, StarLazy Dot, Plus Space,
           Group (Plus Word), Lit ''('', Star (NotChr (CHR '')'')), Lit '')'',
           Star Space, Lit ''{'']"

definition imports_re :: regex where
  "imports_re = Seqs [Lit ''import'', Plus Space, Group (Plus (NotChr (CHR '';''))), Lit '';'']"

definition assertions_re :: regex where
  "assertions_re = Seqs [Lit ''assert'', Plus Word, Lit ''('']"

definition timeouts_re :: regex where
  "timeouts_re = Lit ''@Timeout''"

definition concurrent_patterns_re :: regex where
  "concurrent_patterns_re =
     Alt (Lit ''CompletableFuture'')
       (Alt (Lit ''ExecutorService'')
         (Alt (Lit ''CountDownLatch'')
           (Seqs [Lit ''virtual'', Star Dot, Lit ''thread''])))"

definition mockito_usage_re :: regex where
  "mockito_usage_re = Lit ''@ExtendWith(MockitoExtension.class)''"

text \<open>The local variables that \<open>analyze_test_file\<close> computes from the file's content.\<close>

record analysis =
  test_methods :: "string list"
  nested_classes :: "(string \<times> string) list"
  helper_methods :: "string list"
  imports_found :: "string list"
  assertions :: nat
  timeouts :: nat
  concurrent_patterns :: nat
  mockito_usage :: nat

definition analyze :: "string \<Rightarrow> analysis" where
  "analyze content =
     \<lparr> test_methods = findall [MULTILINE, DOTALL] test_methods_re content,
       nested_classes = findall2 [] nested_classes_re content,
       helper_methods = findall [] helper_methods_re content,
       imports_found = findall [] imports_re content,
       assertions = length (findall [] assertions_re content),
       timeouts = length (findall [] timeouts_re content),
       concurrent_patterns = length (findall [IGNORECASE] concurrent_patterns_re content),
       mockito_usage = length (findall [] mockito_usage_re content) \<rparr>"


section \<open>The report\<close>

text \<open>
  Standard output is the list of the texts printed so far, one entry for each call of
  \<open>print\<close>; the stream holds each entry followed by a newline (\<open>rendered\<close>).
\<close>

type_synonym stdout = "string list"

definition print :: "string \<Rightarrow> stdout \<Rightarrow> stdout" where
  "print s out = out @ [s]"

definition rendered :: "stdout \<Rightarrow> string" where
  "rendered out = concat (map (\<lambda>l. l @ [CHR 0x0A]) out)"

text \<open>How an f-string writes a non-negative integer: its decimal digits.\<close>

function str_of_nat :: "nat \<Rightarrow> string" where
  "str_of_nat n =
     (if n < 10 then [char_of (48 + n)]
      else str_of_nat (n div 10) @ [char_of (48 + n mod 10)])"
  by pat_completeness auto
termination
  by (relation "measure id") auto

definition run_all :: "(stdout \<Rightarrow> stdout) list \<Rightarrow> stdout \<Rightarrow> stdout" where
  "run_all steps out = fold (\<lambda>step. step) steps out"

definition banner :: string where
  "banner = replicate 60 (CHR ''='')"

definition print_header :: "stdout \<Rightarrow> stdout" where
  "print_header =
     run_all [print banner, print ''CONCURRENTDUPLICATEFINDER TEST ANALYSIS'', print banner]"

definition print_test_structure :: "analysis \<Rightarrow> stdout \<Rightarrow> stdout" where
  "print_test_structure a =
     run_all
       [print (CHR 0x0A # ''[TEST STRUCTURE]:''),
        print (''   * Total test methods: '' @ str_of_nat (length (test_methods a))),
        print (''   * Nested test classes: '' @ str_of_nat (length (nested_classes a))),
        print (''   * Helper methods: '' @ str_of_nat (length (helper_methods a))),
        print (''   * Test imports: '' @ str_of_nat (length (imports_found a)))]"

definition print_test_coverage :: "analysis \<Rightarrow> stdout \<Rightarrow> stdout" where
  "print_test_coverage a =
     run_all
       [print (CHR 0x0A # ''[TEST COVERAGE]:''),
        print (''   * Assertion statements: '' @ str_of_nat (assertions a)),
        print (''   * Timeout constraints: '' @ str_of_nat (timeouts a)),
        print (''   * Concurrency patterns: '' @ str_of_nat (concurrent_patterns a)),
        print (''   * Mockito integration: '' @ (if mockito_usage a > 0 then ''Yes'' else ''No''))]"

definition print_nested_classes :: "analysis \<Rightarrow> stdout \<Rightarrow> stdout" where
  "print_nested_classes a =
     run_all
       [print (CHR 0x0A # ''[NESTED TEST CLASSES]:''),
        fold (\<lambda>(display_name, class_name). print (''   * '' @ class_name @ '': '' @ display_name))
          (nested_classes a)]"

definition print_key_test_methods :: "analysis \<Rightarrow> stdout \<Rightarrow> stdout" where
  "print_key_test_methods a =
     run_all
       [print (CHR 0x0A # ''[KEY TEST METHODS] (sample):''),
        fold (\<lambda>(i, method). print (''   * '' @ method))
          (enumerate 0 (take 10 (test_methods a))),
        (\<lambda>out. if length (test_methods a) > 10
               then print (''   ... and '' @ str_of_nat (length (test_methods a) - 10) @ '' more'') out
               else out)]"

definition relevant_helpers :: "analysis \<Rightarrow> string list" where
  "relevant_helpers a =
     filter (\<lambda>h. str_in ''test'' (lower h) \<or> str_in ''create'' (lower h) \<or> str_in ''mock'' (lower h))
       (helper_methods a)"

definition print_helper_methods :: "analysis \<Rightarrow> stdout \<Rightarrow> stdout" where
  "print_helper_methods a =
     run_all
       [print (CHR 0x0A # ''[HELPER METHODS]:''),
        fold (\<lambda>helper. print (''   * '' @ helper)) (take 5 (relevant_helpers a))]"

definition categories :: "string list" where
  "categories =
     [''Constructor and Configuration'',
      ''Empty and Null Input Handling'',
      ''Exact Duplicate Detection'',
      ''Metadata Duplicate Detection'',
      ''Size-based Duplicate Detection'',
      ''Concurrent Processing'',
      ''Deduplication and Priority'',
      ''Statistics Generation'',
      ''Resource Management'',
      ''Edge Cases and Error Handling'',
      ''Performance Testing'']"

definition print_categories :: "stdout \<Rightarrow> stdout" where
  "print_categories =
     run_all
       [print (CHR 0x0A # ''[TEST CATEGORIES COVERED]:''),
        fold (\<lambda>category. print (''   + '' @ category)) categories]"

definition features :: "string list" where
  "features =
     [''Virtual Thread Execution'',
      ''Async Operation Handling'',
      ''Multiple Concurrent Finders'',
      ''Exception Propagation'',
      ''Resource Cleanup'',
      ''Thread Safety'']"

definition print_features :: "stdout \<Rightarrow> stdout" where
  "print_features =
     run_all
       [print (CHR 0x0A # ''[CONCURRENCY FEATURES TESTED]:''),
        fold (\<lambda>feature. print (''   + '' @ feature)) features]"

definition print_performance :: "analysis \<Rightarrow> stdout \<Rightarrow> stdout" where
  "print_performance a =
     run_all
       [print (CHR 0x0A # ''[PERFORMANCE CHARACTERISTICS]:''),
        print (''   * Timeout-constrained tests: '' @ str_of_nat (timeouts a)),
        print ''   * Large dataset testing: YES'',
        print ''   * Memory efficiency testing: YES'',
        print ''   * Concurrent processing validation: YES'']"

definition print_summary :: "analysis \<Rightarrow> stdout \<Rightarrow> stdout" where
  "print_summary a =
     run_all
       [print (CHR 0x0A # ''[SUMMARY]:''),
        print ''   The test suite provides comprehensive coverage of the'',
        print (''   ConcurrentDuplicateFinder class with '' @ str_of_nat (length (test_methods a))
               @ '' test methods''),
        print (''   organized into '' @ str_of_nat (length (nested_classes a))
               @ '' logical test groupings.''),
        print ''   It includes concurrency testing, performance validation,'',
        print ''   error handling, and edge case coverage.'',
        print banner]"

definition report :: "analysis \<Rightarrow> stdout \<Rightarrow> stdout" where
  "report a =
     run_all
       [print_header, print_test_structure a, print_test_coverage a, print_nested_classes a,
        print_key_test_methods a, print_helper_methods a, print_categories, print_features,
        print_performance a, print_summary a]"

section \<open>The run\<close>

text \<open>
  The file system as the run sees it: what, if anything, is at a path. \<open>File text\<close> is a
  file that \<open>open(path, 'r', encoding='utf-8').read()\<close> can read, and \<open>text\<close> is what that
  call returns: the bytes decoded as UTF-8, with every line ending (CR LF or CR) already
  turned into a newline. \<open>Undecodable\<close> is a file whose bytes are not UTF-8 and \<open>Forbidden\<close>
  one the process may not read. \<open>os.path.exists\<close> is true of anything at the path, a
  directory as well, and \<open>open\<close> and \<open>read\<close> raise on all but a \<open>File\<close>. A run ends by
  returning or by an exception that nothing catches.
\<close>

datatype entry = File string | Directory | Undecodable | Forbidden

type_synonym filesystem = "string \<Rightarrow> entry option"

datatype exn = FileNotFoundError | IsADirectoryError | UnicodeDecodeError | PermissionError

datatype outcome = Returned | Raised exn

definition os_path_exists :: "filesystem \<Rightarrow> string \<Rightarrow> bool" where
  "os_path_exists fs p = (fs p \<noteq> None)"

definition open_read :: "filesystem \<Rightarrow> string \<Rightarrow> exn + string" where
  "open_read fs p =
     (case fs p of
        None \<Rightarrow> Inl FileNotFoundError
      | Some Directory \<Rightarrow> Inl IsADirectoryError
      | Some Undecodable \<Rightarrow> Inl UnicodeDecodeError
      | Some Forbidden \<Rightarrow> Inl PermissionError
      | Some (File content) \<Rightarrow> Inr content)"

definition test_file_path :: string where
  "test_file_path = ''src/test/java/com/musicorganizer/processor/ConcurrentDuplicateFinderTest.java''"

definition analyze_test_file :: "filesystem \<Rightarrow> stdout \<Rightarrow> stdout \<times> outcome" where
  "analyze_test_file fs out =
     (if \<not> os_path_exists fs test_file_path
      then (print (''Test file not found: '' @ test_file_path) out, Returned)
      else case open_read fs test_file_path of
             Inl e \<Rightarrow> (out, Raised e)
           | Inr content \<Rightarrow> (report (analyze content) out, Returned))"

section \<open>Properties of the report\<close>

declare findall_from.simps [simp del]
declare str_of_nat.simps [simp del]

lemma fold_print: "fold (\<lambda>x. print (f x)) xs out = out @ map f xs"
  by (induction xs arbitrary: out) (simp_all add: print_def)

lemma fold_print_pair: "fold (\<lambda>(x, y). print (f x y)) xs out = out @ map (\<lambda>(x, y). f x y) xs"
  by (induction xs arbitrary: out) (auto simp: print_def)

lemma map_snd_enumerate: "map (\<lambda>(i, x). f x) (enumerate n xs) = map f xs"
  by (induction xs arbitrary: n) simp_all

lemma key_test_methods_lines:
  "print_key_test_methods a out =
     out @ [CHR 0x0A # ''[KEY TEST METHODS] (sample):'']
         @ map (\<lambda>m. ''   * '' @ m) (take 10 (test_methods a))
         @ (if length (test_methods a) > 10
            then [''   ... and '' @ str_of_nat (length (test_methods a) - 10) @ '' more'']
            else [])"
  by (simp add: print_key_test_methods_def run_all_def fold_print_pair map_snd_enumerate print_def)

lemma str_of_nat_5: "str_of_nat (Suc (Suc (Suc (Suc (Suc 0))))) = ''5''"
  by code_simp

text \<open>
  C5. The Key Test Methods section is its heading, then one line for each of the first
  \<open>min 10 n\<close> of the \<open>n\<close> test-method names in their order, then, only when \<open>n > 10\<close>, one
  line giving \<open>n - 10\<close>. Fifteen names give the first ten and the line "... and 5 more";
  three names give three lines and no such line.
\<close>

theorem key_test_methods_sample:
  "print_key_test_methods a out =
     out @ [CHR 0x0A # ''[KEY TEST METHODS] (sample):'']
         @ map (\<lambda>m. ''   * '' @ m) (take 10 (test_methods a))
         @ (if length (test_methods a) > 10
            then [''   ... and '' @ str_of_nat (length (test_methods a) - 10) @ '' more'']
            else [])
   \<and> length (take 10 (test_methods a)) = min 10 (length (test_methods a))
   \<and> print_key_test_methods
        (a\<lparr>test_methods := [n1, n2, n3, n4, n5, n6, n7, n8, n9, n10, n11, n12, n13, n14, n15]\<rparr>) out =
      out @ [CHR 0x0A # ''[KEY TEST METHODS] (sample):'',
             ''   * '' @ n1, ''   * '' @ n2, ''   * '' @ n3, ''   * '' @ n4, ''   * '' @ n5,
             ''   * '' @ n6, ''   * '' @ n7, ''   * '' @ n8, ''   * '' @ n9, ''   * '' @ n10,
             ''   ... and 5 more'']
   \<and> print_key_test_methods (a\<lparr>test_methods := [n1, n2, n3]\<rparr>) out =
      out @ [CHR 0x0A # ''[KEY TEST METHODS] (sample):'',
             ''   * '' @ n1, ''   * '' @ n2, ''   * '' @ n3]"
proof (intro conjI)
  show "length (take 10 (test_methods a)) = min 10 (length (test_methods a))"
    by simp
qed (simp_all add: key_test_methods_lines str_of_nat_5)

text \<open>
  The specification's filter for the Helper Methods section, in its own words and without
  the program's \<open>lower\<close>: a keyword written in small letters occurs in \<open>h\<close> ignoring case
  when a piece of \<open>h\<close> spells it letter by letter, each letter small or capital.
\<close>

definition capitals :: "(char \<times> char) list" where
  "capitals = zip ''abcdefghijklmnopqrstuvwxyz'' ''ABCDEFGHIJKLMNOPQRSTUVWXYZ''"

definition same_letter :: "char \<Rightarrow> char \<Rightarrow> bool" where
  "same_letter x k = (x = k \<or> (k, x) \<in> set capitals)"

definition occurs_ignoring_case :: "string \<Rightarrow> string \<Rightarrow> bool" where
  "occurs_ignoring_case w h = (\<exists>ps u ss. h = ps @ u @ ss \<and> list_all2 same_letter u w)"

lemma starts_with_iff: "starts_with w s \<longleftrightarrow> (\<exists>ss. s = w @ ss)"
  by (induction w s rule: starts_with.induct) auto

lemma str_in_iff: "str_in w s \<longleftrightarrow> (\<exists>ps ss. s = ps @ w @ ss)"
proof (induction s)
  case Nil
  then show ?case by auto
next
  case (Cons y s)
  show ?case
  proof
    assume "str_in w (y # s)"
    then consider "starts_with w (y # s)" | "str_in w s" by auto
    then show "\<exists>ps ss. y # s = ps @ w @ ss"
    proof cases
      case 1
      then obtain ss where "y # s = w @ ss" using starts_with_iff by blast
      then have "y # s = [] @ w @ ss" by simp
      then show ?thesis by blast
    next
      case 2
      then obtain ps ss where "s = ps @ w @ ss" using Cons.IH by blast
      then have "y # s = (y # ps) @ w @ ss" by simp
      then show ?thesis by blast
    qed
  next
    assume "\<exists>ps ss. y # s = ps @ w @ ss"
    then obtain ps ss where e: "y # s = ps @ w @ ss" by blast
    show "str_in w (y # s)"
    proof (cases ps)
      case Nil
      with e have "starts_with w (y # s)" using starts_with_iff by auto
      then show ?thesis by simp
    next
      case (Cons p ps')
      with e have "s = ps' @ w @ ss" by simp
      then have "str_in w s" using Cons.IH by blast
      then show ?thesis by simp
    qed
  qed
qed

lemma lower_append: "lower (xs @ ys) = lower xs @ lower ys"
  by (simp add: lower_def)

lemma str_in_lower:
  "str_in w (lower h) \<longleftrightarrow> (\<exists>ps u ss. h = ps @ u @ ss \<and> map to_lower u = w)"
proof
  assume "str_in w (lower h)"
  then obtain ps ss where "map to_lower h = ps @ w @ ss"
    unfolding str_in_iff lower_def by blast
  then have "\<exists>us vs. h = us @ vs \<and> ps = map to_lower us \<and> w @ ss = map to_lower vs"
    by (simp only: map_eq_append_conv)
  then obtain ps' r where h1: "h = ps' @ r" and "w @ ss = map to_lower r"
    by blast
  then have "\<exists>us vs. r = us @ vs \<and> w = map to_lower us \<and> ss = map to_lower vs"
    by (simp only: append_eq_map_conv)
  then obtain u ss' where h2: "r = u @ ss'" and h3: "w = map to_lower u"
    by blast
  from h1 h2 have "h = ps' @ u @ ss'" by simp
  with h3 [symmetric] show "\<exists>ps u ss. h = ps @ u @ ss \<and> map to_lower u = w"
    by blast
next
  assume "\<exists>ps u ss. h = ps @ u @ ss \<and> map to_lower u = w"
  then obtain ps u ss where h: "h = ps @ u @ ss" and "map to_lower u = w"
    by blast
  then have u: "lower u = w" by (simp only: lower_def)
  have "lower h = lower ps @ w @ lower ss"
    unfolding h lower_append u ..
  then show "str_in w (lower h)" unfolding str_in_iff by blast
qed

text \<open>
  What \<open>str.lower\<close> does to the letters of the three keywords: a character becomes the
  small letter exactly when it is that letter or its capital.
\<close>

lemma letter_fold:
  assumes K: "(of_char K :: nat) + 32 = of_char k"
    and k: "97 \<le> (of_char k :: nat)" "(of_char k :: nat) \<le> 122"
  shows "to_lower x = k \<longleftrightarrow> x = k \<or> x = K"
proof -
  let ?n = "of_char x :: nat"
  have n: "?n < 256" by simp
  show ?thesis
  proof (cases "(65 \<le> ?n \<and> ?n \<le> 90) \<or> (192 \<le> ?n \<and> ?n \<le> 222 \<and> ?n \<noteq> 215)")
    case True
    then have tl: "to_lower x = char_of (?n + 32)"
      unfolding to_lower_def Let_def by (rule if_P)
    from True have small: "?n + 32 < 256" by arith
    have "char_of (?n + 32) = k \<longleftrightarrow> (?n + 32) mod 256 = of_char k"
      by (simp add: char_of_eq_iff take_bit_eq_mod)
    also have "\<dots> \<longleftrightarrow> ?n + 32 = of_char k"
      using small by simp
    also have "\<dots> \<longleftrightarrow> ?n = of_char K"
      using K by arith
    also have "\<dots> \<longleftrightarrow> x = K"
      by (simp add: of_char_eq_iff)
    finally have 1: "to_lower x = k \<longleftrightarrow> x = K"
      unfolding tl .
    have "x \<noteq> k"
    proof
      assume "x = k"
      then have "?n = of_char k" by simp
      with True k show False by arith
    qed
    with 1 show ?thesis by simp
  next
    case False
    then have tl: "to_lower x = x"
      unfolding to_lower_def Let_def by (rule if_not_P)
    have "x \<noteq> K"
    proof
      assume "x = K"
      then have "?n = of_char K" by simp
      with False K k show False by arith
    qed
    with tl show ?thesis by simp
  qed
qed

lemma same_letter_keys:
  "same_letter x (CHR ''t'') = (x = CHR ''t'' \<or> x = CHR ''T'')"
  "same_letter x (CHR ''e'') = (x = CHR ''e'' \<or> x = CHR ''E'')"
  "same_letter x (CHR ''s'') = (x = CHR ''s'' \<or> x = CHR ''S'')"
  "same_letter x (CHR ''c'') = (x = CHR ''c'' \<or> x = CHR ''C'')"
  "same_letter x (CHR ''r'') = (x = CHR ''r'' \<or> x = CHR ''R'')"
  "same_letter x (CHR ''a'') = (x = CHR ''a'' \<or> x = CHR ''A'')"
  "same_letter x (CHR ''m'') = (x = CHR ''m'' \<or> x = CHR ''M'')"
  "same_letter x (CHR ''o'') = (x = CHR ''o'' \<or> x = CHR ''O'')"
  "same_letter x (CHR ''k'') = (x = CHR ''k'' \<or> x = CHR ''K'')"
  by (simp_all add: same_letter_def capitals_def)

lemma to_lower_keys:
  "(to_lower x = CHR ''t'') = same_letter x (CHR ''t'')"
  "(to_lower x = CHR ''e'') = same_letter x (CHR ''e'')"
  "(to_lower x = CHR ''s'') = same_letter x (CHR ''s'')"
  "(to_lower x = CHR ''c'') = same_letter x (CHR ''c'')"
  "(to_lower x = CHR ''r'') = same_letter x (CHR ''r'')"
  "(to_lower x = CHR ''a'') = same_letter x (CHR ''a'')"
  "(to_lower x = CHR ''m'') = same_letter x (CHR ''m'')"
  "(to_lower x = CHR ''o'') = same_letter x (CHR ''o'')"
  "(to_lower x = CHR ''k'') = same_letter x (CHR ''k'')"
  unfolding same_letter_keys
  by (rule letter_fold; simp)+

lemma key_letter:
  assumes "k \<in> set ''tescramok''"
  shows "(to_lower x = k) = same_letter x k"
proof -
  from assms have "k = CHR ''t'' \<or> k = CHR ''e'' \<or> k = CHR ''s'' \<or> k = CHR ''c'' \<or> k = CHR ''r''
      \<or> k = CHR ''a'' \<or> k = CHR ''m'' \<or> k = CHR ''o'' \<or> k = CHR ''k''"
    by simp
  then show ?thesis
    by (elim disjE) (simp_all only: to_lower_keys)
qed

lemma map_lower_keys:
  "set w \<subseteq> set ''tescramok'' \<Longrightarrow> (map to_lower u = w) = list_all2 same_letter u w"
proof (induction u arbitrary: w)
  case Nil
  show ?case by (cases w) simp_all
next
  case (Cons x u)
  show ?case
  proof (cases w)
    case Nil
    then show ?thesis by simp
  next
    case (Cons k w')
    with Cons.prems have k: "k \<in> set ''tescramok''" and w': "set w' \<subseteq> set ''tescramok''"
      by simp_all
    have "(map to_lower (x # u) = k # w') = (to_lower x = k \<and> map to_lower u = w')"
      by simp
    also have "\<dots> = (same_letter x k \<and> list_all2 same_letter u w')"
      unfolding key_letter [OF k] Cons.IH [OF w'] ..
    finally show ?thesis using Cons by simp
  qed
qed

lemma str_in_lower_keys:
  assumes "set w \<subseteq> set ''tescramok''"
  shows "str_in w (lower h) = occurs_ignoring_case w h"
  unfolding str_in_lower occurs_ignoring_case_def map_lower_keys [OF assms] ..

text \<open>
  The report as the specification lays it out: ten sections in a fixed order, written as
  the list of lines that the analysis determines.
\<close>

definition report_lines :: "analysis \<Rightarrow> string list" where
  "report_lines a =
     [banner, ''CONCURRENTDUPLICATEFINDER TEST ANALYSIS'', banner,
      CHR 0x0A # ''[TEST STRUCTURE]:'',
      ''   * Total test methods: '' @ str_of_nat (length (test_methods a)),
      ''   * Nested test classes: '' @ str_of_nat (length (nested_classes a)),
      ''   * Helper methods: '' @ str_of_nat (length (helper_methods a)),
      ''   * Test imports: '' @ str_of_nat (length (imports_found a)),
      CHR 0x0A # ''[TEST COVERAGE]:'',
      ''   * Assertion statements: '' @ str_of_nat (assertions a),
      ''   * Timeout constraints: '' @ str_of_nat (timeouts a),
      ''   * Concurrency patterns: '' @ str_of_nat (concurrent_patterns a),
      ''   * Mockito integration: '' @ (if mockito_usage a > 0 then ''Yes'' else ''No''),
      CHR 0x0A # ''[NESTED TEST CLASSES]:'']
     @ map (\<lambda>(display_name, class_name). ''   * '' @ class_name @ '': '' @ display_name)
         (nested_classes a)
     @ [CHR 0x0A # ''[KEY TEST METHODS] (sample):'']
     @ map (\<lambda>m. ''   * '' @ m) (take 10 (test_methods a))
     @ (if length (test_methods a) > 10
        then [''   ... and '' @ str_of_nat (length (test_methods a) - 10) @ '' more'']
        else [])
     @ [CHR 0x0A # ''[HELPER METHODS]:'']
     @ map (\<lambda>h. ''   * '' @ h) (take 5 (relevant_helpers a))
     @ [CHR 0x0A # ''[TEST CATEGORIES COVERED]:'']
     @ map (\<lambda>c. ''   + '' @ c) categories
     @ [CHR 0x0A # ''[CONCURRENCY FEATURES TESTED]:'']
     @ map (\<lambda>f. ''   + '' @ f) features
     @ [CHR 0x0A # ''[PERFORMANCE CHARACTERISTICS]:'',
        ''   * Timeout-constrained tests: '' @ str_of_nat (timeouts a),
        ''   * Large dataset testing: YES'',
        ''   * Memory efficiency testing: YES'',
        ''   * Concurrent processing validation: YES'',
        CHR 0x0A # ''[SUMMARY]:'',
        ''   The test suite provides comprehensive coverage of the'',
        ''   ConcurrentDuplicateFinder class with '' @ str_of_nat (length (test_methods a))
          @ '' test methods'',
        ''   organized into '' @ str_of_nat (length (nested_classes a)) @ '' logical test groupings.'',
        ''   It includes concurrency testing, performance validation,'',
        ''   error handling, and edge case coverage.'',
        banner]"

lemma header_closed:
  "print_header out = out @ [banner, ''CONCURRENTDUPLICATEFINDER TEST ANALYSIS'', banner]"
  by (simp add: print_header_def run_all_def print_def)

lemma structure_closed:
  "print_test_structure a out =
     out @ [CHR 0x0A # ''[TEST STRUCTURE]:'',
            ''   * Total test methods: '' @ str_of_nat (length (test_methods a)),
            ''   * Nested test classes: '' @ str_of_nat (length (nested_classes a)),
            ''   * Helper methods: '' @ str_of_nat (length (helper_methods a)),
            ''   * Test imports: '' @ str_of_nat (length (imports_found a))]"
  by (simp add: print_test_structure_def run_all_def print_def)

lemma coverage_lines_closed:
  "print_test_coverage a out =
     out @ [CHR 0x0A # ''[TEST COVERAGE]:'',
            ''   * Assertion statements: '' @ str_of_nat (assertions a),
            ''   * Timeout constraints: '' @ str_of_nat (timeouts a),
            ''   * Concurrency patterns: '' @ str_of_nat (concurrent_patterns a),
            ''   * Mockito integration: '' @ (if mockito_usage a > 0 then ''Yes'' else ''No'')]"
  by (simp add: print_test_coverage_def run_all_def print_def)

lemma nested_closed:
  "print_nested_classes a out =
     out @ [CHR 0x0A # ''[NESTED TEST CLASSES]:'']
         @ map (\<lambda>(display_name, class_name). ''   * '' @ class_name @ '': '' @ display_name)
             (nested_classes a)"
  by (simp add: print_nested_classes_def run_all_def print_def fold_print_pair)

lemma helpers_closed:
  "print_helper_methods a out =
     out @ [CHR 0x0A # ''[HELPER METHODS]:''] @ map (\<lambda>h. ''   * '' @ h) (take 5 (relevant_helpers a))"
  by (simp add: print_helper_methods_def run_all_def fold_print print_def)

lemma categories_closed:
  "print_categories out =
     out @ [CHR 0x0A # ''[TEST CATEGORIES COVERED]:''] @ map (\<lambda>c. ''   + '' @ c) categories"
  by (simp add: print_categories_def run_all_def fold_print print_def)

lemma features_closed:
  "print_features out =
     out @ [CHR 0x0A # ''[CONCURRENCY FEATURES TESTED]:''] @ map (\<lambda>f. ''   + '' @ f) features"
  by (simp add: print_features_def run_all_def fold_print print_def)

lemma performance_closed:
  "print_performance a out =
     out @ [CHR 0x0A # ''[PERFORMANCE CHARACTERISTICS]:'',
            ''   * Timeout-constrained tests: '' @ str_of_nat (timeouts a),
            ''   * Large dataset testing: YES'',
            ''   * Memory efficiency testing: YES'',
            ''   * Concurrent processing validation: YES'']"
  by (simp add: print_performance_def run_all_def print_def)

lemma summary_closed:
  "print_summary a out =
     out @ [CHR 0x0A # ''[SUMMARY]:'',
            ''   The test suite provides comprehensive coverage of the'',
            ''   ConcurrentDuplicateFinder class with '' @ str_of_nat (length (test_methods a))
              @ '' test methods'',
            ''   organized into '' @ str_of_nat (length (nested_classes a)) @ '' logical test groupings.'',
            ''   It includes concurrency testing, performance validation,'',
            ''   error handling, and edge case coverage.'',
            banner]"
  by (simp add: print_summary_def run_all_def print_def)

lemma report_closed: "report a out = out @ report_lines a"
proof -
  have "report a out =
      print_summary a (print_performance a (print_features (print_categories
        (print_helper_methods a (print_key_test_methods a (print_nested_classes a
          (print_test_coverage a (print_test_structure a (print_header out)))))))))"
    by (simp add: report_def run_all_def)
  also have "\<dots> = out @ report_lines a"
    unfolding header_closed structure_closed coverage_lines_closed nested_closed
      key_test_methods_lines helpers_closed categories_closed features_closed
      performance_closed summary_closed report_lines_def
    by (simp only: append_assoc append_Cons append_Nil)
  finally show ?thesis .
qed

lemma keyword_letters:
  "set ''test'' \<subseteq> set ''tescramok''" "set ''create'' \<subseteq> set ''tescramok''"
  "set ''mock'' \<subseteq> set ''tescramok''"
  by simp_all

lemma relevant_sample:
  "filter (\<lambda>h. str_in ''test'' (lower h) \<or> str_in ''create'' (lower h) \<or> str_in ''mock'' (lower h))
     [''TESTb'', ''a'', ''Mock'', ''createX'', ''x'', ''aTeSt'', ''MOCKs'', ''CreateY'']
   = [''TESTb'', ''Mock'', ''createX'', ''aTeSt'', ''MOCKs'', ''CreateY'']"
  by code_simp

text \<open>
  C7. The Helper Methods section is its heading and then one line for each of the first
  \<open>min 5 k\<close> of the \<open>k\<close> helper names that contain "test", "create" or "mock" as a
  substring when letter case is ignored, in the order in which they were recognized. Of
  the names TESTb, a, Mock, createX, x, aTeSt, MOCKs, CreateY it keeps all but a and x,
  and prints the first five of them.
\<close>

theorem helper_methods_section:
  "print_helper_methods a out =
     out @ [CHR 0x0A # ''[HELPER METHODS]:'']
         @ map (\<lambda>h. ''   * '' @ h)
             (take 5 (filter (\<lambda>h. occurs_ignoring_case ''test'' h \<or> occurs_ignoring_case ''create'' h
                                  \<or> occurs_ignoring_case ''mock'' h)
                        (helper_methods a)))
   \<and> length (take 5 (relevant_helpers a)) = min 5 (length (relevant_helpers a))
   \<and> relevant_helpers a =
       filter (\<lambda>h. occurs_ignoring_case ''test'' h \<or> occurs_ignoring_case ''create'' h
                     \<or> occurs_ignoring_case ''mock'' h)
         (helper_methods a)
   \<and> relevant_helpers
        (a\<lparr>helper_methods :=
             [''TESTb'', ''a'', ''Mock'', ''createX'', ''x'', ''aTeSt'', ''MOCKs'', ''CreateY'']\<rparr>)
       = [''TESTb'', ''Mock'', ''createX'', ''aTeSt'', ''MOCKs'', ''CreateY'']
   \<and> print_helper_methods
        (a\<lparr>helper_methods :=
             [''TESTb'', ''a'', ''Mock'', ''createX'', ''x'', ''aTeSt'', ''MOCKs'', ''CreateY'']\<rparr>) out
       = out @ [CHR 0x0A # ''[HELPER METHODS]:'', ''   * TESTb'', ''   * Mock'', ''   * createX'',
                ''   * aTeSt'', ''   * MOCKs'']"
proof -
  have rel: "relevant_helpers a =
       filter (\<lambda>h. occurs_ignoring_case ''test'' h \<or> occurs_ignoring_case ''create'' h
                     \<or> occurs_ignoring_case ''mock'' h)
         (helper_methods a)"
    unfolding relevant_helpers_def
    by (simp only: str_in_lower_keys [OF keyword_letters(1)] str_in_lower_keys [OF keyword_letters(2)]
        str_in_lower_keys [OF keyword_letters(3)])
  have pr: "print_helper_methods a out =
     out @ [CHR 0x0A # ''[HELPER METHODS]:''] @ map (\<lambda>h. ''   * '' @ h) (take 5 (relevant_helpers a))"
    for a
    by (simp add: print_helper_methods_def run_all_def fold_print print_def)
  have len: "length (take 5 (relevant_helpers a)) = min 5 (length (relevant_helpers a))"
    by simp
  have sample: "relevant_helpers
        (a\<lparr>helper_methods :=
             [''TESTb'', ''a'', ''Mock'', ''createX'', ''x'', ''aTeSt'', ''MOCKs'', ''CreateY'']\<rparr>)
       = [''TESTb'', ''Mock'', ''createX'', ''aTeSt'', ''MOCKs'', ''CreateY'']"
    unfolding relevant_helpers_def using relevant_sample by simp
  have printed: "print_helper_methods
        (a\<lparr>helper_methods :=
             [''TESTb'', ''a'', ''Mock'', ''createX'', ''x'', ''aTeSt'', ''MOCKs'', ''CreateY'']\<rparr>) out
       = out @ [CHR 0x0A # ''[HELPER METHODS]:'', ''   * TESTb'', ''   * Mock'', ''   * createX'',
                ''   * aTeSt'', ''   * MOCKs'']"
    unfolding pr sample by simp
  from pr [of a] rel len sample printed show ?thesis by (simp only: simp_thms)
qed

lemma rendered_append: "rendered (xs @ ys) = rendered xs @ rendered ys"
  by (simp add: rendered_def)

text \<open>
  C9. The report appends to standard output exactly the lines of \<open>report_lines\<close>, which
  are built from the analysis and the fixed texts and from nothing else. So formatting one
  analysis twice writes the same lines, and the same bytes, twice, whatever was written
  before; and a run on an existing file writes the lines of the analysis of its content,
  whatever else the file system holds, so two files with the same analysis give the same
  run.
\<close>

theorem report_deterministic:
  "report a out = out @ report_lines a
   \<and> report a (report a out) = out @ report_lines a @ report_lines a
   \<and> rendered (report a (report a [])) = rendered (report_lines a) @ rendered (report_lines a)
   \<and> (fs test_file_path = Some (File content)
       \<longrightarrow> analyze_test_file fs out = (out @ report_lines (analyze content), Returned))
   \<and> (fs1 test_file_path = Some (File c1) \<and> fs2 test_file_path = Some (File c2)
        \<and> analyze c1 = analyze c2
       \<longrightarrow> analyze_test_file fs1 out = analyze_test_file fs2 out)"
proof (intro conjI impI)
  show "report a out = out @ report_lines a" by (rule report_closed)
  show "report a (report a out) = out @ report_lines a @ report_lines a"
    by (simp only: report_closed append_assoc)
  show "rendered (report a (report a [])) = rendered (report_lines a) @ rendered (report_lines a)"
    by (simp only: report_closed append_Nil rendered_append)
next
  assume "fs test_file_path = Some (File content)"
  then show "analyze_test_file fs out = (out @ report_lines (analyze content), Returned)"
    by (simp add: analyze_test_file_def os_path_exists_def open_read_def report_closed)
next
  assume "fs1 test_file_path = Some (File c1) \<and> fs2 test_file_path = Some (File c2)
        \<and> analyze c1 = analyze c2"
  then show "analyze_test_file fs1 out = analyze_test_file fs2 out"
    by (simp add: analyze_test_file_def os_path_exists_def open_read_def)
qed

lemma report_lines_sample:
  "report_lines
     \<lparr>test_methods = [''t1''], nested_classes = [(''d e'', ''C'')],
      helper_methods = [''x'', ''createY''], imports_found = [], assertions = 12, timeouts = 1,
      concurrent_patterns = 0, mockito_usage = 2\<rparr>
   = [''============================================================'',
      ''CONCURRENTDUPLICATEFINDER TEST ANALYSIS'',
      ''============================================================'',
      CHR 0x0A # ''[TEST STRUCTURE]:'',
      ''   * Total test methods: 1'',
      ''   * Nested test classes: 1'',
      ''   * Helper methods: 2'',
      ''   * Test imports: 0'',
      CHR 0x0A # ''[TEST COVERAGE]:'',
      ''   * Assertion statements: 12'',
      ''   * Timeout constraints: 1'',
      ''   * Concurrency patterns: 0'',
      ''   * Mockito integration: Yes'',
      CHR 0x0A # ''[NESTED TEST CLASSES]:'',
      ''   * C: d e'',
      CHR 0x0A # ''[KEY TEST METHODS] (sample):'',
      ''   * t1'',
      CHR 0x0A # ''[HELPER METHODS]:'',
      ''   * createY'',
      CHR 0x0A # ''[TEST CATEGORIES COVERED]:'',
      ''   + Constructor and Configuration'',
      ''   + Empty and Null Input Handling'',
      ''   + Exact Duplicate Detection'',
      ''   + Metadata Duplicate Detection'',
      ''   + Size-based Duplicate Detection'',
      ''   + Concurrent Processing'',
      ''   + Deduplication and Priority'',
      ''   + Statistics Generation'',
      ''   + Resource Management'',
      ''   + Edge Cases and Error Handling'',
      ''   + Performance Testing'',
      CHR 0x0A # ''[CONCURRENCY FEATURES TESTED]:'',
      ''   + Virtual Thread Execution'',
      ''   + Async Operation Handling'',
      ''   + Multiple Concurrent Finders'',
      ''   + Exception Propagation'',
      ''   + Resource Cleanup'',
      ''   + Thread Safety'',
      CHR 0x0A # ''[PERFORMANCE CHARACTERISTICS]:'',
      ''   * Timeout-constrained tests: 1'',
      ''   * Large dataset testing: YES'',
      ''   * Memory efficiency testing: YES'',
      ''   * Concurrent processing validation: YES'',
      CHR 0x0A # ''[SUMMARY]:'',
      ''   The test suite provides comprehensive coverage of the'',
      ''   ConcurrentDuplicateFinder class with 1 test methods'',
      ''   organized into 1 logical test groupings.'',
      ''   It includes concurrency testing, performance validation,'',
      ''   error handling, and edge case coverage.'',
      ''============================================================'']"
  by code_simp

lemma same_analysis_sample:
  "analyze ''@Timeout a'' = analyze ''b @Timeout''" "timeouts (analyze ''@Timeout a'') = 1"
  by code_simp+

theorem report_deterministic_witness:
  "report
     \<lparr>test_methods = [''t1''], nested_classes = [(''d e'', ''C'')],
      helper_methods = [''x'', ''createY''], imports_found = [], assertions = 12, timeouts = 1,
      concurrent_patterns = 0, mockito_usage = 2\<rparr>
     [''earlier'']
   = [''earlier'',
      ''============================================================'',
      ''CONCURRENTDUPLICATEFINDER TEST ANALYSIS'',
      ''============================================================'',
      CHR 0x0A # ''[TEST STRUCTURE]:'',
      ''   * Total test methods: 1'',
      ''   * Nested test classes: 1'',
      ''   * Helper methods: 2'',
      ''   * Test imports: 0'',
      CHR 0x0A # ''[TEST COVERAGE]:'',
      ''   * Assertion statements: 12'',
      ''   * Timeout constraints: 1'',
      ''   * Concurrency patterns: 0'',
      ''   * Mockito integration: Yes'',
      CHR 0x0A # ''[NESTED TEST CLASSES]:'',
      ''   * C: d e'',
      CHR 0x0A # ''[KEY TEST METHODS] (sample):'',
      ''   * t1'',
      CHR 0x0A # ''[HELPER METHODS]:'',
      ''   * createY'',
      CHR 0x0A # ''[TEST CATEGORIES COVERED]:'',
      ''   + Constructor and Configuration'',
      ''   + Empty and Null Input Handling'',
      ''   + Exact Duplicate Detection'',
      ''   + Metadata Duplicate Detection'',
      ''   + Size-based Duplicate Detection'',
      ''   + Concurrent Processing'',
      ''   + Deduplication and Priority'',
      ''   + Statistics Generation'',
      ''   + Resource Management'',
      ''   + Edge Cases and Error Handling'',
      ''   + Performance Testing'',
      CHR 0x0A # ''[CONCURRENCY FEATURES TESTED]:'',
      ''   + Virtual Thread Execution'',
      ''   + Async Operation Handling'',
      ''   + Multiple Concurrent Finders'',
      ''   + Exception Propagation'',
      ''   + Resource Cleanup'',
      ''   + Thread Safety'',
      CHR 0x0A # ''[PERFORMANCE CHARACTERISTICS]:'',
      ''   * Timeout-constrained tests: 1'',
      ''   * Large dataset testing: YES'',
      ''   * Memory efficiency testing: YES'',
      ''   * Concurrent processing validation: YES'',
      CHR 0x0A # ''[SUMMARY]:'',
      ''   The test suite provides comprehensive coverage of the'',
      ''   ConcurrentDuplicateFinder class with 1 test methods'',
      ''   organized into 1 logical test groupings.'',
      ''   It includes concurrency testing, performance validation,'',
      ''   error handling, and edge case coverage.'',
      ''============================================================'']
   \<and> analyze ''@Timeout a'' = analyze ''b @Timeout''
   \<and> ''@Timeout a'' \<noteq> ''b @Timeout''
   \<and> timeouts (analyze ''@Timeout a'') = 1
   \<and> analyze_test_file (\<lambda>p. Some (File ''@Timeout a'')) [''earlier'']
       = (''earlier'' # report_lines (analyze ''@Timeout a''), Returned)
   \<and> analyze_test_file (\<lambda>p. Some (File ''@Timeout a'')) [''earlier'']
       = analyze_test_file
           (\<lambda>p. if p = test_file_path then Some (File ''b @Timeout'') else Some Directory)
           [''earlier'']"
proof -
  let ?A = "\<lparr>test_methods = [''t1''], nested_classes = [(''d e'', ''C'')],
          helper_methods = [''x'', ''createY''], imports_found = [], assertions = 12, timeouts = 1,
          concurrent_patterns = 0, mockito_usage = 2\<rparr>"
  let ?fs1 = "\<lambda>p::string. Some (File ''@Timeout a'')"
  let ?fs2 = "\<lambda>p. if p = test_file_path then Some (File ''b @Timeout'') else Some Directory"
  note th = report_deterministic
      [where a = ?A and out = "[''earlier'']"
        and fs = ?fs1 and content = "''@Timeout a''"
        and ?fs1.0 = ?fs1 and ?c1.0 = "''@Timeout a''"
        and ?fs2.0 = ?fs2 and ?c2.0 = "''b @Timeout''"]
  from th have "report ?A [''earlier''] = [''earlier''] @ report_lines ?A"
    by (rule conjunct1)
  then have 1: "report ?A [''earlier''] = ''earlier'' # report_lines ?A"
    by (simp only: append_Cons append_Nil)
  from th have run: "?fs1 test_file_path = Some (File ''@Timeout a'')
       \<longrightarrow> analyze_test_file ?fs1 [''earlier'']
           = ([''earlier''] @ report_lines (analyze ''@Timeout a''), Returned)"
    and two: "?fs1 test_file_path = Some (File ''@Timeout a'')
        \<and> ?fs2 test_file_path = Some (File ''b @Timeout'')
        \<and> analyze ''@Timeout a'' = analyze ''b @Timeout''
       \<longrightarrow> analyze_test_file ?fs1 [''earlier''] = analyze_test_file ?fs2 [''earlier'']"
    by blast+
  from run have 2: "analyze_test_file ?fs1 [''earlier'']
       = (''earlier'' # report_lines (analyze ''@Timeout a''), Returned)"
    by simp
  from two same_analysis_sample(1)
  have 3: "analyze_test_file ?fs1 [''earlier''] = analyze_test_file ?fs2 [''earlier'']"
    by simp
  have 4: "''@Timeout a'' \<noteq> ''b @Timeout''" by simp
  show ?thesis
    using 1 [unfolded report_lines_sample] same_analysis_sample 2 3 4
    by (intro conjI)
qed

text \<open>
  C6. When nothing exists at the path of the test file, the run prints the one line
  "Test file not found: ..." and returns: no report section is printed, nothing is
  analysed and no exception is raised.
\<close>

theorem missing_file:
  "fs test_file_path = None \<Longrightarrow>
     analyze_test_file fs out = (out @ [''Test file not found: '' @ test_file_path], Returned)"
  by (simp add: analyze_test_file_def os_path_exists_def print_def)

theorem missing_file_witness:
  "(\<lambda>p. None) test_file_path = (None :: entry option)
   \<and> analyze_test_file (\<lambda>p. None) [] =
       ([''Test file not found: src/test/java/com/musicorganizer/processor/ConcurrentDuplicateFinderTest.java''],
        Returned)"
  using missing_file [of "\<lambda>p. None" "[]"]
  by (simp add: test_file_path_def)

section \<open>Properties of the scan\<close>

text \<open>A pattern matches somewhere in a text: at its start or at the start of a later suffix.\<close>

fun matches_somewhere :: "flag list \<Rightarrow> regex \<Rightarrow> string \<Rightarrow> bool" where
  "matches_somewhere fl r [] = (ms fl r [] \<noteq> [])"
| "matches_somewhere fl r (c # t) = (ms fl r (c # t) \<noteq> [] \<or> matches_somewhere fl r t)"

definition recognizers :: "(flag list \<times> regex) list" where
  "recognizers =
     [([MULTILINE, DOTALL], test_methods_re), ([], nested_classes_re), ([], helper_methods_re),
      ([], imports_re), ([], assertions_re), ([], timeouts_re),
      ([IGNORECASE], concurrent_patterns_re), ([], mockito_usage_re)]"

lemma findall_from_nil: "ms fl r [] = [] \<Longrightarrow> findall_from fl r [] adv = []"
  by (subst findall_from.simps) simp

lemma findall_from_skip:
  "ms fl r (c # t) = [] \<Longrightarrow> findall_from fl r (c # t) adv = findall_from fl r t False"
  by (subst findall_from.simps) simp

lemma findall_from_hit:
  "ms fl r s = m # rest \<Longrightarrow>
     findall_from fl r s False =
       (take (length s - length (snd m)) s, fst m)
       # findall_from fl r (snd m) (length (snd m) = length s)"
  by (subst findall_from.simps) simp

lemma findall_from_empty_iff:
  "findall_from fl r s False = [] \<longleftrightarrow> \<not> matches_somewhere fl r s"
proof (induction s)
  case Nil
  show ?case
  proof (cases "ms fl r []")
    case Nil
    then show ?thesis by (simp add: findall_from_nil)
  next
    case (Cons m rest)
    then show ?thesis by (simp add: findall_from_hit)
  qed
next
  case (Cons c t)
  show ?case
  proof (cases "ms fl r (c # t)")
    case Nil
    then show ?thesis using Cons.IH by (simp add: findall_from_skip)
  next
    case (Cons m rest)
    then show ?thesis by (simp add: findall_from_hit)
  qed
qed

lemma findall_empty_iff: "findall fl r s = [] \<longleftrightarrow> \<not> matches_somewhere fl r s"
  by (simp add: findall_def findall_from_empty_iff)

lemma findall2_empty_iff: "findall2 fl r s = [] \<longleftrightarrow> \<not> matches_somewhere fl r s"
  by (simp add: findall2_def findall_from_empty_iff)

lemma lit_match_exact: "lit_match [] w s = starts_with w s"
  by (induction w s rule: starts_with.induct) (simp_all add: chr_eq_def)

lemma starts_with_Nil: "starts_with w [] = (w = [])"
  by (cases w) simp_all

lemma matches_somewhere_Lit: "matches_somewhere [] (Lit w) s = str_in w s"
  by (induction s) (simp_all add: lit_match_exact starts_with_Nil)

lemma coverage_closed:
  "print_test_coverage a out =
     out @ [CHR 0x0A # ''[TEST COVERAGE]:'',
            ''   * Assertion statements: '' @ str_of_nat (assertions a),
            ''   * Timeout constraints: '' @ str_of_nat (timeouts a),
            ''   * Concurrency patterns: '' @ str_of_nat (concurrent_patterns a),
            ''   * Mockito integration: '' @ (if mockito_usage a > 0 then ''Yes'' else ''No'')]"
  by (simp add: print_test_coverage_def run_all_def print_def)

lemma mockito_usage_iff:
  "0 < mockito_usage (analyze content) \<longleftrightarrow> str_in ''@ExtendWith(MockitoExtension.class)'' content"
proof -
  have "0 < mockito_usage (analyze content) \<longleftrightarrow> findall [] mockito_usage_re content \<noteq> []"
    by (simp add: analyze_def)
  also have "\<dots> \<longleftrightarrow> matches_somewhere [] (Lit ''@ExtendWith(MockitoExtension.class)'') content"
    unfolding findall_empty_iff mockito_usage_re_def by simp
  finally show ?thesis unfolding matches_somewhere_Lit .
qed

text \<open>
  C8. The count behind the mocking flag is positive exactly when the text contains the
  literal annotation \<open>@ExtendWith(MockitoExtension.class)\<close>, and the Test Coverage
  section ends with the line "Mockito integration: Yes" in that case and "No" otherwise.
\<close>

theorem mockito_flag:
  "(0 < mockito_usage (analyze content)) =
     (\<exists>ps ss. content = ps @ ''@ExtendWith(MockitoExtension.class)'' @ ss)
   \<and> print_test_coverage (analyze content) out =
       out @ [CHR 0x0A # ''[TEST COVERAGE]:'',
              ''   * Assertion statements: '' @ str_of_nat (assertions (analyze content)),
              ''   * Timeout constraints: '' @ str_of_nat (timeouts (analyze content)),
              ''   * Concurrency patterns: '' @ str_of_nat (concurrent_patterns (analyze content)),
              ''   * Mockito integration: '' @
                (if \<exists>ps ss. content = ps @ ''@ExtendWith(MockitoExtension.class)'' @ ss
                 then ''Yes'' else ''No'')]"
proof -
  have m: "(0 < mockito_usage (analyze content)) =
     (\<exists>ps ss. content = ps @ ''@ExtendWith(MockitoExtension.class)'' @ ss)"
    unfolding mockito_usage_iff str_in_iff ..
  show ?thesis
    unfolding coverage_closed m [symmetric] using m by (simp only: simp_thms)
qed

text \<open>The analysis in which nothing was recognized.\<close>

definition no_matches :: analysis where
  "no_matches =
     \<lparr> test_methods = [], nested_classes = [], helper_methods = [], imports_found = [],
       assertions = 0, timeouts = 0, concurrent_patterns = 0, mockito_usage = 0 \<rparr>"

text \<open>
  C1. When none of the eight patterns matches anywhere in the text, every list of the
  analysis is empty and every count is 0 (so the mocking flag is off), and the run on a
  file with that text prints the report for this analysis and returns: it is a normal
  result, not an error.
\<close>

theorem nothing_recognized:
  assumes "list_all (\<lambda>(fl, r). \<not> matches_somewhere fl r content) recognizers"
  shows "analyze content = no_matches
         \<and> (fs test_file_path = Some (File content) \<longrightarrow>
              analyze_test_file fs out = (report no_matches out, Returned))"
proof -
  from assms have
    "\<not> matches_somewhere [MULTILINE, DOTALL] test_methods_re content"
    "\<not> matches_somewhere [] nested_classes_re content"
    "\<not> matches_somewhere [] helper_methods_re content"
    "\<not> matches_somewhere [] imports_re content"
    "\<not> matches_somewhere [] assertions_re content"
    "\<not> matches_somewhere [] timeouts_re content"
    "\<not> matches_somewhere [IGNORECASE] concurrent_patterns_re content"
    "\<not> matches_somewhere [] mockito_usage_re content"
    by (simp_all add: recognizers_def)
  then have
    "findall [MULTILINE, DOTALL] test_methods_re content = []"
    "findall2 [] nested_classes_re content = []"
    "findall [] helper_methods_re content = []"
    "findall [] imports_re content = []"
    "findall [] assertions_re content = []"
    "findall [] timeouts_re content = []"
    "findall [IGNORECASE] concurrent_patterns_re content = []"
    "findall [] mockito_usage_re content = []"
    by (simp_all only: findall_empty_iff findall2_empty_iff simp_thms)
  then have a: "analyze content = no_matches"
    by (simp add: analyze_def no_matches_def)
  then show ?thesis
    by (simp add: analyze_test_file_def os_path_exists_def open_read_def)
qed

theorem nothing_recognized_witness:
  "list_all (\<lambda>(fl, r). \<not> matches_somewhere fl r ''int x;'') recognizers
   \<and> analyze ''int x;'' = no_matches
   \<and> analyze_test_file (\<lambda>p. Some (File ''int x;'')) [] = (report no_matches [], Returned)
   \<and> list_all (\<lambda>(fl, r). \<not> matches_somewhere fl r []) recognizers
   \<and> analyze [] = no_matches"
proof -
  have 1: "list_all (\<lambda>(fl, r). \<not> matches_somewhere fl r ''int x;'') recognizers" by code_simp
  have 2: "list_all (\<lambda>(fl, r). \<not> matches_somewhere fl r []) recognizers" by code_simp
  from nothing_recognized [OF 1, of "\<lambda>p. Some (File ''int x;'')" "[]"]
    nothing_recognized [OF 2, of "\<lambda>p. None" "[]"] 1 2
  show ?thesis by simp
qed

lemma analyze_fields:
  "test_methods (analyze t) = findall [MULTILINE, DOTALL] test_methods_re t"
  "nested_classes (analyze t) = findall2 [] nested_classes_re t"
  "helper_methods (analyze t) = findall [] helper_methods_re t"
  "imports_found (analyze t) = findall [] imports_re t"
  "assertions (analyze t) = length (findall [] assertions_re t)"
  "timeouts (analyze t) = length (findall [] timeouts_re t)"
  "concurrent_patterns (analyze t) = length (findall [IGNORECASE] concurrent_patterns_re t)"
  "mockito_usage (analyze t) = length (findall [] mockito_usage_re t)"
  by (simp_all add: analyze_def)

section \<open>What a pattern's matches look like\<close>

text \<open>The patterns that match one character, and the characters they match.\<close>

fun is_cls :: "regex \<Rightarrow> bool" where
  "is_cls Dot = True"
| "is_cls Space = True"
| "is_cls Word = True"
| "is_cls (NotChr x) = True"
| "is_cls r = False"

fun cls_has :: "flag list \<Rightarrow> regex \<Rightarrow> char \<Rightarrow> bool" where
  "cls_has fl Dot c = (DOTALL \<in> set fl \<or> c \<noteq> CHR 0x0A)"
| "cls_has fl Space c = is_space c"
| "cls_has fl Word c = is_word c"
| "cls_has fl (NotChr x) c = (c \<noteq> x)"
| "cls_has fl r c = False"

lemma ms_cls:
  "is_cls k \<Longrightarrow>
     ms fl k s = (case s of [] \<Rightarrow> [] | c # t \<Rightarrow> if cls_has fl k c then [([], t)] else [])"
  by (cases k; cases s) simp_all

lemma in_ms_cls:
  assumes "is_cls k"
  shows "(c, t) \<in> set (ms fl k s) \<longleftrightarrow> (\<exists>x. s = x # t \<and> cls_has fl k x \<and> c = [])"
  unfolding ms_cls [OF assms] by (cases s) auto

lemma in_ms_Lit:
  "(c, t) \<in> set (ms fl (Lit w) s) \<longleftrightarrow> lit_match fl w s \<and> c = [] \<and> t = drop (length w) s"
  by auto

lemma in_ms_Star_cls:
  assumes k: "is_cls k"
  shows "(c, t) \<in> set (ms fl (Star k) s) \<Longrightarrow> c = [] \<and> (\<exists>xs. s = xs @ t \<and> list_all (cls_has fl k) xs)"
proof (induction s arbitrary: c)
  case Nil
  from Nil.prems have "c = [] \<and> t = []"
    by (subst (asm) in_ms_Star) (simp add: in_ms_cls [OF k])
  then show ?case by simp
next
  case (Cons x s)
  from Cons.prems consider "c = []" "t = x # s"
    | c1 t1 c2 where "(c1, t1) \<in> set (ms fl k (x # s))" "(c2, t) \<in> set (ms fl (Star k) t1)" "c = c1 @ c2"
    by (subst (asm) in_ms_Star) blast
  then show ?case
  proof cases
    case 1
    then show ?thesis by simp
  next
    case 2
    from 2(1) have t1: "t1 = s" and x: "cls_has fl k x" and c1: "c1 = []"
      unfolding in_ms_cls [OF k] by simp_all
    from Cons.IH [of c2] 2(2) t1 obtain xs where c2: "c2 = []" and s: "s = xs @ t"
      and xs: "list_all (cls_has fl k) xs"
      by blast
    have "x # s = (x # xs) @ t" using s by simp
    moreover have "list_all (cls_has fl k) (x # xs)" using x xs by simp
    ultimately have "\<exists>ys. x # s = ys @ t \<and> list_all (cls_has fl k) ys" by blast
    with 2(3) c1 c2 show ?thesis by simp
  qed
qed

lemma in_ms_Plus_cls:
  assumes k: "is_cls k" and m: "(c, t) \<in> set (ms fl (Plus k) s)"
  shows "c = [] \<and> (\<exists>xs. s = xs @ t \<and> xs \<noteq> [] \<and> list_all (cls_has fl k) xs)"
proof -
  from m obtain c1 t1 c2 where 1: "(c1, t1) \<in> set (ms fl k s)"
    and 2: "(c2, t) \<in> set (ms fl (Star k) t1)" and c: "c = c1 @ c2"
    unfolding in_ms_Seq by blast
  from 1 obtain x where s: "s = x # t1" and x: "cls_has fl k x" and c1: "c1 = []"
    unfolding in_ms_cls [OF k] by blast
  from in_ms_Star_cls [OF k 2] obtain xs where c2: "c2 = []" and t1: "t1 = xs @ t"
    and xs: "list_all (cls_has fl k) xs"
    by blast
  have "s = (x # xs) @ t" using s t1 by simp
  moreover have "x # xs \<noteq> []" by simp
  moreover have "list_all (cls_has fl k) (x # xs)" using x xs by simp
  ultimately have "\<exists>ys. s = ys @ t \<and> ys \<noteq> [] \<and> list_all (cls_has fl k) ys" by blast
  with c c1 c2 show ?thesis by simp
qed

lemma in_ms_Group_Plus_cls:
  assumes k: "is_cls k" and m: "(c, t) \<in> set (ms fl (Group (Plus k)) s)"
  shows "\<exists>g. c = [g] \<and> s = g @ t \<and> g \<noteq> [] \<and> list_all (cls_has fl k) g"
proof -
  from m obtain c' where 1: "(c', t) \<in> set (ms fl (Plus k) s)"
    and c: "c = take (length s - length t) s # c'"
    unfolding in_ms_Group by blast
  from in_ms_Plus_cls [OF k 1] obtain xs where c': "c' = []" and s: "s = xs @ t"
    and xs: "xs \<noteq> []" "list_all (cls_has fl k) xs"
    by blast
  have "take (length s - length t) s = xs" using s by simp
  with c c' s xs show ?thesis by simp
qed

text \<open>\<open>caps_sat fl r P\<close>: the groups of every match of \<open>r\<close>, wherever it is tried, satisfy \<open>P\<close>.\<close>

definition caps_sat :: "flag list \<Rightarrow> regex \<Rightarrow> (string list \<Rightarrow> bool) \<Rightarrow> bool" where
  "caps_sat fl r P = (\<forall>s c t. (c, t) \<in> set (ms fl r s) \<longrightarrow> P c)"

lemma caps_satD: "caps_sat fl r P \<Longrightarrow> (c, t) \<in> set (ms fl r s) \<Longrightarrow> P c"
  unfolding caps_sat_def by blast

lemma caps_Lit: "caps_sat fl (Lit w) (\<lambda>c. c = [])"
  unfolding caps_sat_def in_ms_Lit by blast

lemma caps_Plus_cls: "is_cls k \<Longrightarrow> caps_sat fl (Plus k) (\<lambda>c. c = [])"
  unfolding caps_sat_def using in_ms_Plus_cls by blast

lemma caps_Group_Plus_cls:
  "is_cls k \<Longrightarrow>
     caps_sat fl (Group (Plus k)) (\<lambda>c. \<exists>g. c = [g] \<and> g \<noteq> [] \<and> list_all (cls_has fl k) g)"
  unfolding caps_sat_def using in_ms_Group_Plus_cls by blast

lemma caps_Seq:
  assumes "caps_sat fl a P" and "caps_sat fl b Q"
  shows "caps_sat fl (Seq a b) (\<lambda>c. \<exists>c1 c2. c = c1 @ c2 \<and> P c1 \<and> Q c2)"
  unfolding caps_sat_def in_ms_Seq
  using assms [unfolded caps_sat_def] by blast

lemma caps_Seq_nil:
  assumes "caps_sat fl a (\<lambda>c. c = [])" and "caps_sat fl b Q"
  shows "caps_sat fl (Seq a b) Q"
  unfolding caps_sat_def
proof (intro allI impI)
  fix s c t
  assume "(c, t) \<in> set (ms fl (Seq a b) s)"
  then obtain c1 t1 c2 where 1: "(c1, t1) \<in> set (ms fl a s)" and 2: "(c2, t) \<in> set (ms fl b t1)"
    and c: "c = c1 @ c2"
    unfolding in_ms_Seq by blast
  from caps_satD [OF assms(1) 1] have "c1 = []" .
  with c have "c = c2" by simp
  with caps_satD [OF assms(2) 2] show "Q c" by simp
qed

lemma findall_from_caps:
  "caps_sat fl r P \<Longrightarrow> (w, c) \<in> set (findall_from fl r s adv) \<Longrightarrow> P c"
proof (induction fl r s adv rule: findall_from.induct)
  case (1 fl r s adv)
  note P = "1.prems"(1) and mem = "1.prems"(2)
  let ?f = "filter (\<lambda>m. \<not> adv \<or> length (snd m) < length s) (ms fl r s)"
  show ?case
  proof (cases ?f)
    case Nil
    show ?thesis
    proof (cases s)
      case Nil
      with \<open>?f = []\<close> mem show ?thesis
        by (subst (asm) findall_from.simps) simp
    next
      case (Cons x t)
      with \<open>?f = []\<close> mem have "(w, c) \<in> set (findall_from fl r t False)"
        by (subst (asm) findall_from.simps) simp
      from "1.IH"(1) [OF \<open>?f = []\<close> Cons P this] show ?thesis .
    qed
  next
    case (Cons m ms')
    with mem consider "c = fst m"
      | "(w, c) \<in> set (findall_from fl r (snd m) (length (snd m) = length s))"
      by (subst (asm) findall_from.simps) auto
    then show ?thesis
    proof cases
      case 1
      have "m \<in> set ?f" using Cons by simp
      then have "(fst m, snd m) \<in> set (ms fl r s)" by simp
      from caps_satD [OF P this] 1 show ?thesis by simp
    next
      case 2
      from "1.IH"(2) [OF Cons P 2] show ?thesis .
    qed
  qed
qed

lemma nested_caps:
  \<open>caps_sat [] nested_classes_re
     (\<lambda>c. \<exists>d n. c = [d, n] \<and> d \<noteq> [] \<and> list_all (\<lambda>x. x \<noteq> CHR ''"'') d
                 \<and> n \<noteq> [] \<and> list_all is_word n)\<close>
proof -
  let ?Q1 = \<open>\<lambda>c. \<exists>g. c = [g] \<and> g \<noteq> [] \<and> list_all (cls_has [] (NotChr (CHR ''"''))) g\<close>
  let ?Q2 = "\<lambda>c. \<exists>g. c = [g] \<and> g \<noteq> [] \<and> list_all (cls_has [] Word) g"
  have g2: "caps_sat [] (Group (Plus Word)) ?Q2"
    by (rule caps_Group_Plus_cls) simp
  have g1: \<open>caps_sat [] (Group (Plus (NotChr (CHR ''"'')))) ?Q1\<close>
    by (rule caps_Group_Plus_cls) simp
  have sp: "caps_sat [] (Plus Space) (\<lambda>c. c = [])"
    by (rule caps_Plus_cls) simp
  have a: "caps_sat [] (Seq (Plus Space) (Group (Plus Word))) ?Q2"
    by (rule caps_Seq_nil [OF sp g2])
  have b: "caps_sat [] (Seq (Lit ''class'') (Seq (Plus Space) (Group (Plus Word)))) ?Q2"
    by (rule caps_Seq_nil [OF caps_Lit a])
  have c: "caps_sat [] (Seq (Plus Space) (Seq (Lit ''class'') (Seq (Plus Space) (Group (Plus Word))))) ?Q2"
    by (rule caps_Seq_nil [OF sp b])
  have d: \<open>caps_sat [] (Seq (Lit ''")'') (Seq (Plus Space) (Seq (Lit ''class'')
             (Seq (Plus Space) (Group (Plus Word)))))) ?Q2\<close>
    by (rule caps_Seq_nil [OF caps_Lit c])
  have e: \<open>caps_sat [] (Seq (Group (Plus (NotChr (CHR ''"'')))) (Seq (Lit ''")'') (Seq (Plus Space)
             (Seq (Lit ''class'') (Seq (Plus Space) (Group (Plus Word)))))))
             (\<lambda>c. \<exists>c1 c2. c = c1 @ c2 \<and> ?Q1 c1 \<and> ?Q2 c2)\<close>
    by (rule caps_Seq [OF g1 d])
  have f: \<open>caps_sat [] (Seq (Lit ''@DisplayName("'') (Seq (Group (Plus (NotChr (CHR ''"''))))
             (Seq (Lit ''")'') (Seq (Plus Space)
             (Seq (Lit ''class'') (Seq (Plus Space) (Group (Plus Word))))))))
             (\<lambda>c. \<exists>c1 c2. c = c1 @ c2 \<and> ?Q1 c1 \<and> ?Q2 c2)\<close>
    by (rule caps_Seq_nil [OF caps_Lit e])
  have g: \<open>caps_sat [] (Seq (Plus Space) (Seq (Lit ''@DisplayName("'')
             (Seq (Group (Plus (NotChr (CHR ''"''))))
             (Seq (Lit ''")'') (Seq (Plus Space)
             (Seq (Lit ''class'') (Seq (Plus Space) (Group (Plus Word)))))))))
             (\<lambda>c. \<exists>c1 c2. c = c1 @ c2 \<and> ?Q1 c1 \<and> ?Q2 c2)\<close>
    by (rule caps_Seq_nil [OF sp f])
  have h: \<open>caps_sat [] nested_classes_re (\<lambda>c. \<exists>c1 c2. c = c1 @ c2 \<and> ?Q1 c1 \<and> ?Q2 c2)\<close>
    unfolding nested_classes_re_def Seqs.simps
    by (rule caps_Seq_nil [OF caps_Lit g])
  show ?thesis
    unfolding caps_sat_def
  proof (intro allI impI)
    fix s c t
    assume "(c, t) \<in> set (ms [] nested_classes_re s)"
    from caps_satD [OF h this] obtain g1 g2 where "c = [g1] @ [g2]"
      and "g1 \<noteq> []" \<open>list_all (cls_has [] (NotChr (CHR ''"''))) g1\<close>
      and "g2 \<noteq> []" "list_all (cls_has [] Word) g2"
      by blast
    moreover have \<open>cls_has [] (NotChr (CHR ''"'')) = (\<lambda>x. x \<noteq> CHR ''"'')\<close>
      by (rule ext) simp
    moreover have "cls_has [] Word = is_word"
      by (rule ext) simp
    ultimately show \<open>\<exists>d n. c = [d, n] \<and> d \<noteq> [] \<and> list_all (\<lambda>x. x \<noteq> CHR ''"'') d
                 \<and> n \<noteq> [] \<and> list_all is_word n\<close>
      by simp
  qed
qed

lemma span_unique:
  "list_all P xs \<Longrightarrow> list_all P ys \<Longrightarrow> xs @ a # s = ys @ b # u \<Longrightarrow> \<not> P a \<Longrightarrow> \<not> P b
     \<Longrightarrow> xs = ys \<and> a = b \<and> s = u"
proof (induction xs arbitrary: ys)
  case Nil
  then show ?case by (cases ys) auto
next
  case (Cons x xs)
  show ?case
  proof (cases ys)
    case Nil
    with Cons.prems show ?thesis by auto
  next
    case (Cons y ys')
    with Cons.prems have "list_all P xs" "list_all P ys'" "xs @ a # s = ys' @ b # u" "x = y"
      by simp_all
    with Cons.IH [of ys'] Cons.prems(4,5) Cons show ?thesis by simp
  qed
qed

lemma not_space_at: "\<not> is_space (CHR ''@'')"
  by (simp add: is_space_def)

lemma empty_display_name_unmatched:
  assumes ws: "list_all is_space ws"
  shows \<open>ms [] nested_classes_re (''@Nested'' @ ws @ ''@DisplayName("")'' @ rest) = []\<close>
proof (rule ccontr)
  let ?s = \<open>''@Nested'' @ ws @ ''@DisplayName("")'' @ rest\<close>
  let ?R5 = \<open>Seq (Lit ''")'') (Seq (Plus Space) (Seq (Lit ''class'') (Seq (Plus Space) (Group (Plus Word)))))\<close>
  let ?R4 = \<open>Seq (Group (Plus (NotChr (CHR ''"'')))) ?R5\<close>
  let ?R3 = \<open>Seq (Lit ''@DisplayName("'') ?R4\<close>
  let ?R2 = "Seq (Plus Space) ?R3"
  have re: "nested_classes_re = Seq (Lit ''@Nested'') ?R2"
    by (simp add: nested_classes_re_def)
  assume "ms [] nested_classes_re ?s \<noteq> []"
  then obtain c t zs where "ms [] nested_classes_re ?s = (c, t) # zs"
    by (cases "ms [] nested_classes_re ?s") auto
  then have "(c, t) \<in> set (ms [] nested_classes_re ?s)"
    by simp
  then have "(c, t) \<in> set (ms [] (Seq (Lit ''@Nested'') ?R2) ?s)"
    by (simp only: re)
  then obtain c1 t1 c2 where 1: "(c1, t1) \<in> set (ms [] (Lit ''@Nested'') ?s)"
    and 2: "(c2, t) \<in> set (ms [] ?R2 t1)"
    using in_ms_Seq [THEN iffD1] by blast
  from 1 have t1: \<open>t1 = ws @ ''@DisplayName("")'' @ rest\<close>
    unfolding in_ms_Lit by simp
  from 2 obtain c3 t2 c4 where 3: "(c3, t2) \<in> set (ms [] (Plus Space) t1)"
    and 4: "(c4, t) \<in> set (ms [] ?R3 t2)"
    using in_ms_Seq [THEN iffD1] by blast
  from in_ms_Plus_cls [OF _ 3] obtain xs where xs: "t1 = xs @ t2" "list_all (cls_has [] Space) xs"
    by auto
  from 4 obtain c5 t3 c6 where 5: \<open>(c5, t3) \<in> set (ms [] (Lit ''@DisplayName("'') t2)\<close>
    and 6: "(c6, t) \<in> set (ms [] ?R4 t3)"
    using in_ms_Seq [THEN iffD1] by blast
  from 5 have \<open>starts_with ''@DisplayName("'' t2\<close> and t3: \<open>t3 = drop (length ''@DisplayName("'') t2\<close>
    unfolding in_ms_Lit lit_match_exact by simp_all
  then obtain ss where t2: \<open>t2 = ''@DisplayName("'' @ ss\<close>
    unfolding starts_with_iff by blast
  with t3 have t3': "t3 = ss" by simp
  have sp: "cls_has [] Space = is_space" by (rule ext) simp
  have \<open>xs @ CHR ''@'' # (''DisplayName("'' @ ss) = ws @ CHR ''@'' # (''DisplayName("")'' @ rest)\<close>
    using t1 xs(1) t2 by simp
  from span_unique [OF xs(2) [unfolded sp] ws this not_space_at not_space_at]
  have \<open>''DisplayName("'' @ ss = ''DisplayName("")'' @ rest\<close> by simp
  then have ss: \<open>ss = CHR ''"'' # '')'' @ rest\<close> by simp
  from 6 obtain c7 t4 c8 where 7: \<open>(c7, t4) \<in> set (ms [] (Group (Plus (NotChr (CHR ''"'')))) t3)\<close>
    using in_ms_Seq [THEN iffD1] by blast
  from in_ms_Group_Plus_cls [OF _ 7] obtain g where g: "t3 = g @ t4" "g \<noteq> []"
    \<open>list_all (cls_has [] (NotChr (CHR ''"''))) g\<close>
    by auto
  from g(2) obtain x g' where g': "g = x # g'" by (cases g) auto
  with g(1) t3' ss have \<open>x = CHR ''"''\<close> by simp
  with g(3) g' show False by simp
qed

text \<open>
  C10. Every pair in \<open>nested_classes\<close> has a display name that is not empty and holds
  no double quote, for every text. A group marker followed by whitespace and a display-name
  marker with the empty string \<open>""\<close> starts no match of the pattern, whatever follows.
\<close>

theorem display_names_nonempty:
  \<open>list_all (\<lambda>(display_name, class_name). display_name \<noteq> [] \<and> CHR ''"'' \<notin> set display_name)
      (nested_classes (analyze content))
   \<and> (list_all is_space ws \<longrightarrow>
        ms [] nested_classes_re (''@Nested'' @ ws @ ''@DisplayName("")'' @ rest) = [])\<close>
proof (intro conjI impI)
  show \<open>list_all (\<lambda>(display_name, class_name). display_name \<noteq> [] \<and> CHR ''"'' \<notin> set display_name)
      (nested_classes (analyze content))\<close>
    unfolding analyze_fields findall2_def list_all_iff
  proof
    fix p
    assume "p \<in> set (map (\<lambda>(whole, groups). case groups of [g1, g2] \<Rightarrow> (g1, g2) | _ \<Rightarrow> ([], []))
                       (findall_from [] nested_classes_re content False))"
    then obtain w c where wc: "(w, c) \<in> set (findall_from [] nested_classes_re content False)"
      and p: "p = (case c of [g1, g2] \<Rightarrow> (g1, g2) | _ \<Rightarrow> ([], []))"
      by auto
    from findall_from_caps [OF nested_caps wc] obtain d n where "c = [d, n]" "d \<noteq> []"
      \<open>list_all (\<lambda>x. x \<noteq> CHR ''"'') d\<close>
      by blast
    with p show \<open>case p of (display_name, class_name) \<Rightarrow> display_name \<noteq> [] \<and> CHR ''"'' \<notin> set display_name\<close>
      by (auto simp: list_all_iff)
  qed
next
  assume "list_all is_space ws"
  then show \<open>ms [] nested_classes_re (''@Nested'' @ ws @ ''@DisplayName("")'' @ rest) = []\<close>
    by (rule empty_display_name_unmatched)
qed

theorem display_names_nonempty_witness:
  \<open>nested_classes (analyze ''@Nested @DisplayName("x") class A'') = [(''x'', ''A'')]
   \<and> list_all (\<lambda>(display_name, class_name). display_name \<noteq> [] \<and> CHR ''"'' \<notin> set display_name)
       (nested_classes (analyze ''@Nested @DisplayName("x") class A''))
   \<and> list_all is_space '' ''
   \<and> ms [] nested_classes_re (''@Nested'' @ '' '' @ ''@DisplayName("")'' @ '' class A'') = []
   \<and> nested_classes (analyze ''@Nested @DisplayName("") class A'') = []\<close>
proof -
  have 1: \<open>findall2 [] nested_classes_re ''@Nested @DisplayName("x") class A'' = [(''x'', ''A'')]\<close>
    by code_simp
  have 2: \<open>findall2 [] nested_classes_re ''@Nested @DisplayName("") class A'' = []\<close>
    by code_simp
  have 3: "list_all is_space '' ''"
    by code_simp
  from display_names_nonempty [of \<open>''@Nested @DisplayName("x") class A''\<close> "'' ''" "'' class A''"] 3
  show ?thesis
    unfolding analyze_fields 1 2 by simp
qed

section \<open>The matcher's first answer on text of a known shape\<close>

text \<open>\<open>first_is fl r s c t\<close>: the first answer of \<open>r\<close> at \<open>s\<close> has groups \<open>c\<close> and leaves \<open>t\<close>.\<close>

definition first_is :: "flag list \<Rightarrow> regex \<Rightarrow> string \<Rightarrow> string list \<Rightarrow> string \<Rightarrow> bool" where
  "first_is fl r s c t = (\<exists>zs. ms fl r s = (c, t) # zs)"

lemma lit_match_case: "IGNORECASE \<notin> set fl \<Longrightarrow> lit_match fl w s = starts_with w s"
  by (induction w s rule: starts_with.induct) (simp_all add: chr_eq_def)

lemma starts_with_append: "starts_with w (w @ s)"
  by (induction w) simp_all

lemma first_Lit: "IGNORECASE \<notin> set fl \<Longrightarrow> first_is fl (Lit w) (w @ s) [] s"
  by (simp add: first_is_def lit_match_case starts_with_append)

lemma first_Seq:
  assumes "first_is fl a s c1 t1" and "first_is fl b t1 c2 t2"
  shows "first_is fl (Seq a b) s (c1 @ c2) t2"
proof -
  from assms obtain zs ys where a: "ms fl a s = (c1, t1) # zs" and b: "ms fl b t1 = (c2, t2) # ys"
    unfolding first_is_def by blast
  show ?thesis
    unfolding first_is_def by (simp add: a b)
qed

lemma first_Seq_nil:
  assumes "first_is fl a s [] t1" and "first_is fl b t1 c t2"
  shows "first_is fl (Seq a b) s c t2"
  using first_Seq [OF assms] by simp

lemma first_Group:
  assumes "first_is fl a s c t"
  shows "first_is fl (Group a) s (take (length s - length t) s # c) t"
proof -
  from assms obtain zs where a: "ms fl a s = (c, t) # zs"
    unfolding first_is_def by blast
  show ?thesis
    unfolding first_is_def by (simp add: a)
qed

text \<open>Where the text goes on after a run of characters of a class: not with one more of them.\<close>

fun ends_run :: "(char \<Rightarrow> bool) \<Rightarrow> string \<Rightarrow> bool" where
  "ends_run P [] = True"
| "ends_run P (c # t) = (\<not> P c)"

lemma ms_cls_none: "is_cls k \<Longrightarrow> ends_run (cls_has fl k) t \<Longrightarrow> ms fl k t = []"
  by (cases t) (simp_all add: ms_cls)

lemma first_Star_cls:
  assumes k: "is_cls k" and e: "ends_run (cls_has fl k) t"
  shows "list_all (cls_has fl k) xs \<Longrightarrow> first_is fl (Star k) (xs @ t) [] t"
proof (induction xs)
  case Nil
  have "ms fl (Star k) t = [([], t)]"
    by (subst ms.simps(8)) (simp add: ms_cls_none [OF k e])
  then show ?case by (simp add: first_is_def)
next
  case (Cons x xs)
  then have x: "cls_has fl k x" and "first_is fl (Star k) (xs @ t) [] t"
    by simp_all
  then obtain zs where st: "ms fl (Star k) (xs @ t) = ([], t) # zs"
    unfolding first_is_def by blast
  have "ms fl k (x # xs @ t) = [([], xs @ t)]"
    using x by (simp add: ms_cls [OF k])
  then have "ms fl (Star k) ((x # xs) @ t) = (([], t) # map (\<lambda>n. (fst n, snd n)) zs) @ [([], (x # xs) @ t)]"
    by (subst ms.simps(8)) (simp add: st)
  then show ?case by (simp add: first_is_def)
qed

lemma first_Plus_cls:
  assumes k: "is_cls k" and e: "ends_run (cls_has fl k) t"
    and xs: "xs \<noteq> []" "list_all (cls_has fl k) xs"
  shows "first_is fl (Plus k) (xs @ t) [] t"
proof -
  from xs obtain x xs' where c: "xs = x # xs'" "cls_has fl k x" "list_all (cls_has fl k) xs'"
    by (cases xs) auto
  have "ms fl k (x # xs' @ t) = [([], xs' @ t)]"
    using c(2) by (simp add: ms_cls [OF k])
  then have "first_is fl k (xs @ t) [] (xs' @ t)"
    using c(1) by (simp add: first_is_def)
  from first_Seq_nil [OF this first_Star_cls [OF k e c(3)]] show ?thesis .
qed

lemma first_Group_Plus_cls:
  assumes k: "is_cls k" and e: "ends_run (cls_has fl k) t"
    and xs: "xs \<noteq> []" "list_all (cls_has fl k) xs"
  shows "first_is fl (Group (Plus k)) (xs @ t) [xs] t"
  using first_Group [OF first_Plus_cls [OF assms]] by simp

lemma ms_Seq_none: "ms fl a s = [] \<Longrightarrow> ms fl (Seq a b) s = []"
  by simp

lemma ms_Lit_none: "IGNORECASE \<notin> set fl \<Longrightarrow> \<not> starts_with w s \<Longrightarrow> ms fl (Lit w) s = []"
  by (simp add: lit_match_case)

lemma first_Star_none: "ms fl a s = [] \<Longrightarrow> first_is fl (Star a) s [] s"
  unfolding first_is_def by (subst ms.simps(8)) simp

lemma word_not_space: "is_word c \<Longrightarrow> \<not> is_space c"
  unfolding is_word_def is_space_def Let_def by arith

lemma space_not_word: "is_space c \<Longrightarrow> \<not> is_word c"
  using word_not_space by blast

lemma at_not_word: "\<not> is_word (CHR ''@'')"
  by (simp add: is_word_def)

lemma letters_not_space: "\<not> is_space (CHR ''v'')" "\<not> is_space (CHR ''c'')"
  by (simp_all add: is_space_def)

lemma findall_from_skip_prefix:
  "(\<And>u v. pre = u @ v \<Longrightarrow> v \<noteq> [] \<Longrightarrow> ms fl r (v @ s) = []) \<Longrightarrow>
     findall_from fl r (pre @ s) False = findall_from fl r s False"
proof (induction pre)
  case Nil
  show ?case by simp
next
  case (Cons x pre)
  have "ms fl r ((x # pre) @ s) = []"
    by (rule Cons.prems [of "[]"]) simp_all
  then have "findall_from fl r ((x # pre) @ s) False = findall_from fl r (pre @ s) False"
    by (simp add: findall_from_skip)
  also have "\<dots> = findall_from fl r s False"
  proof (rule Cons.IH)
    fix u v
    assume "pre = u @ v" "v \<noteq> []"
    then show "ms fl r (v @ s) = []"
      using Cons.prems [of "x # u" v] by simp
  qed
  finally show ?case .
qed

lemma starts_with_prefix_cases:
  assumes "starts_with w (v @ t)"
  shows "(\<exists>v'. v = w @ v') \<or> (\<exists>w2. w = v @ w2 \<and> w2 \<noteq> [] \<and> starts_with w2 t)"
proof -
  from assms obtain ss where "v @ t = w @ ss"
    unfolding starts_with_iff by blast
  then consider us where "v = w @ us" "us @ t = ss" | us where "v @ us = w" "t = us @ ss"
    unfolding append_eq_append_conv2 by blast
  then show ?thesis
  proof cases
    case 1
    then show ?thesis by blast
  next
    case 2
    show ?thesis
    proof (cases "us = []")
      case True
      with 2 have "v = w @ []" by simp
      then show ?thesis by blast
    next
      case False
      have "starts_with us t" using 2(2) starts_with_iff by blast
      with 2(1) False show ?thesis by blast
    qed
  qed
qed

lemma no_straddle:
  assumes pre: "\<not> str_in (a # w') pre" and uv: "pre = u @ v" "v \<noteq> []" and a: "a \<notin> set w'"
  shows "\<not> starts_with (a # w') (v @ (a # w') @ s)"
proof
  assume "starts_with (a # w') (v @ (a # w') @ s)"
  from starts_with_prefix_cases [OF this]
  consider v' where "v = (a # w') @ v'"
    | w2 where "a # w' = v @ w2" "w2 \<noteq> []" "starts_with w2 ((a # w') @ s)"
    by blast
  then show False
  proof cases
    case 1
    with uv(1) have "pre = u @ (a # w') @ v'" by simp
    then have "str_in (a # w') pre" unfolding str_in_iff by blast
    with pre show False by blast
  next
    case 2
    from uv(2) obtain y v' where v: "v = y # v'" by (cases v) auto
    with 2(1) have w': "w' = v' @ w2" by simp
    from 2(2) obtain z w3 where w2: "w2 = z # w3" by (cases w2) auto
    with 2(3) have "z = a" by simp
    with w' w2 have "a \<in> set w'" by simp
    with a show False by blast
  qed
qed

lemma no_match_without_marker:
  assumes fl: "IGNORECASE \<notin> set fl" and s: "\<not> str_in w s"
  shows "findall_from fl (Seq (Lit w) r) s False = []"
  unfolding findall_from_empty_iff
  using s
proof (induction s)
  case Nil
  then have "\<not> starts_with w []" by (simp add: starts_with_Nil)
  then show ?case by (simp add: lit_match_case [OF fl])
next
  case (Cons x s)
  then have "\<not> starts_with w (x # s)" and "\<not> str_in w s" by simp_all
  with Cons.IH show ?case by (simp add: lit_match_case [OF fl])
qed

lemma skip_to_marker:
  assumes fl: "IGNORECASE \<notin> set fl" and pre: "\<not> str_in (a # w') pre" and a: "a \<notin> set w'"
  shows "findall_from fl (Seq (Lit (a # w')) r) (pre @ (a # w') @ s) False
         = findall_from fl (Seq (Lit (a # w')) r) ((a # w') @ s) False"
proof (rule findall_from_skip_prefix)
  fix u v
  assume "pre = u @ v" "v \<noteq> []"
  from no_straddle [OF pre this a] have "\<not> starts_with (a # w') (v @ (a # w') @ s)" .
  then have "ms fl (Lit (a # w')) (v @ (a # w') @ s) = []"
    by (rule ms_Lit_none [OF fl])
  then show "ms fl (Seq (Lit (a # w')) r) (v @ (a # w') @ s) = []"
    by (rule ms_Seq_none)
qed

text \<open>A non-empty run of whitespace, and an identifier as \<open>\w+\<close> sees it.\<close>

definition spaces :: "string \<Rightarrow> bool" where
  "spaces w = (w \<noteq> [] \<and> list_all is_space w)"

definition is_ident :: "string \<Rightarrow> bool" where
  "is_ident n = (n \<noteq> [] \<and> list_all is_word n)"

lemma cls_has_Space: "cls_has fl Space = is_space"
  by (rule ext) simp

lemma cls_has_Word: "cls_has fl Word = is_word"
  by (rule ext) simp

lemma cls_has_NotChr: "cls_has fl (NotChr x) = (\<lambda>c. c \<noteq> x)"
  by (rule ext) simp

lemma first_spaces: "spaces w \<Longrightarrow> ends_run is_space t \<Longrightarrow> first_is fl (Plus Space) (w @ t) [] t"
  unfolding spaces_def
  by (rule first_Plus_cls) (simp_all add: cls_has_Space)

lemma first_ident: "is_ident n \<Longrightarrow> ends_run is_word t \<Longrightarrow> first_is fl (Plus Word) (n @ t) [] t"
  unfolding is_ident_def
  by (rule first_Plus_cls) (simp_all add: cls_has_Word)

lemma first_ident_group:
  "is_ident n \<Longrightarrow> ends_run is_word t \<Longrightarrow> first_is fl (Group (Plus Word)) (n @ t) [n] t"
  unfolding is_ident_def
  by (rule first_Group_Plus_cls) (simp_all add: cls_has_Word)

lemma ends_run_ident: "is_ident n \<Longrightarrow> ends_run is_space (n @ t)"
  unfolding is_ident_def by (cases n) (simp_all add: word_not_space)

lemma ends_run_spaces: "spaces w \<Longrightarrow> ends_run is_word (w @ t)"
  unfolding spaces_def by (cases w) (simp_all add: space_not_word)

text \<open>
  A grouping declaration as the pattern expects it: the group marker, whitespace, the
  display-name marker with its quoted string, whitespace, \<open>class\<close>, whitespace, the name.
  \<open>lead_text\<close> is the text before the group marker.
\<close>

record group_decl =
  lead_text :: string
  ws_marker :: string
  display_text :: string
  ws_class :: string
  ws_name :: string
  class_ident :: string

definition decl_text :: "group_decl \<Rightarrow> string" where
  \<open>decl_text g =
     ''@Nested'' @ ws_marker g @ ''@DisplayName("'' @ display_text g @ ''")'' @ ws_class g
     @ ''class'' @ ws_name g @ class_ident g\<close>

fun groups_text :: "group_decl list \<Rightarrow> string \<Rightarrow> string" where
  "groups_text [] tail = tail"
| "groups_text (g # gs) tail = lead_text g @ decl_text g @ groups_text gs tail"

definition decl_ok :: "group_decl \<Rightarrow> bool" where
  \<open>decl_ok g =
     (\<not> str_in ''@Nested'' (lead_text g) \<and> spaces (ws_marker g)
      \<and> display_text g \<noteq> [] \<and> list_all (\<lambda>c. c \<noteq> CHR ''"'') (display_text g)
      \<and> spaces (ws_class g) \<and> spaces (ws_name g) \<and> is_ident (class_ident g))\<close>

fun groups_ok :: "group_decl list \<Rightarrow> string \<Rightarrow> bool" where
  "groups_ok [] tail = (\<not> str_in ''@Nested'' tail)"
| "groups_ok (g # gs) tail =
     (decl_ok g \<and> ends_run is_word (groups_text gs tail) \<and> groups_ok gs tail)"

lemma nested_first:
  assumes g: "decl_ok g" and rest: "ends_run is_word rest"
  shows "first_is [] nested_classes_re (decl_text g @ rest) [display_text g, class_ident g] rest"
proof -
  let ?q = \<open>CHR ''"''\<close>
  from g have w1: "spaces (ws_marker g)" and d: "display_text g \<noteq> []"
    "list_all (cls_has [] (NotChr ?q)) (display_text g)"
    and w2: "spaces (ws_class g)" and w3: "spaces (ws_name g)" and n: "is_ident (class_ident g)"
    unfolding decl_ok_def cls_has_NotChr by simp_all
  let ?t9 = "class_ident g @ rest"
  let ?t8 = "ws_name g @ ?t9"
  let ?t7 = "''class'' @ ?t8"
  let ?t6 = "ws_class g @ ?t7"
  let ?t5 = \<open>''")'' @ ?t6\<close>
  let ?t4 = "display_text g @ ?t5"
  let ?t3 = \<open>''@DisplayName("'' @ ?t4\<close>
  let ?t2 = "ws_marker g @ ?t3"
  have 9: "first_is [] (Group (Plus Word)) ?t9 [class_ident g] rest"
    by (rule first_ident_group [OF n rest])
  have 8: "first_is [] (Plus Space) ?t8 [] ?t9"
    by (rule first_spaces [OF w3 ends_run_ident [OF n]])
  have 7: "first_is [] (Lit ''class'') ?t7 [] ?t8"
    by (rule first_Lit) simp
  have 6: "first_is [] (Plus Space) ?t6 [] ?t7"
    by (rule first_spaces [OF w2]) (simp add: letters_not_space)
  have 5: \<open>first_is [] (Lit ''")'') ?t5 [] ?t6\<close>
    by (rule first_Lit) simp
  have 4: "first_is [] (Group (Plus (NotChr ?q))) ?t4 [display_text g] ?t5"
    by (rule first_Group_Plus_cls [OF _ _ d]) simp_all
  have 3: \<open>first_is [] (Lit ''@DisplayName("'') ?t3 [] ?t4\<close>
    by (rule first_Lit) simp
  have 2: "first_is [] (Plus Space) ?t2 [] ?t3"
    by (rule first_spaces [OF w1]) (simp add: not_space_at)
  have 1: "first_is [] (Lit ''@Nested'') (''@Nested'' @ ?t2) [] ?t2"
    by (rule first_Lit) simp
  note a = first_Seq_nil [OF 8 9]
  note b = first_Seq_nil [OF 7 a]
  note c = first_Seq_nil [OF 6 b]
  note d' = first_Seq_nil [OF 5 c]
  note e = first_Seq [OF 4 d']
  note f = first_Seq_nil [OF 3 e]
  note g' = first_Seq_nil [OF 2 f]
  note h = first_Seq_nil [OF 1 g']
  have re: \<open>nested_classes_re =
      Seq (Lit ''@Nested'') (Seq (Plus Space) (Seq (Lit ''@DisplayName("'')
        (Seq (Group (Plus (NotChr ?q))) (Seq (Lit ''")'') (Seq (Plus Space)
          (Seq (Lit ''class'') (Seq (Plus Space) (Group (Plus Word)))))))))\<close>
    by (simp add: nested_classes_re_def)
  have tx: "decl_text g @ rest = ''@Nested'' @ ?t2"
    unfolding decl_text_def by (simp only: append_assoc)
  from h show ?thesis
    unfolding re tx by (simp only: append_Cons append_Nil)
qed

lemma nested_re_head:
  \<open>nested_classes_re =
      Seq (Lit ''@Nested'') (Seq (Plus Space) (Seq (Lit ''@DisplayName("'')
        (Seq (Group (Plus (NotChr (CHR ''"'')))) (Seq (Lit ''")'') (Seq (Plus Space)
          (Seq (Lit ''class'') (Seq (Plus Space) (Group (Plus Word)))))))))\<close>
  by (simp add: nested_classes_re_def)

lemma nested_skip:
  assumes "\<not> str_in ''@Nested'' pre"
  shows "findall_from [] nested_classes_re (pre @ decl_text g @ rest) False
         = findall_from [] nested_classes_re (decl_text g @ rest) False"
proof -
  have tx: \<open>decl_text g @ rest = ''@Nested'' @ (ws_marker g @ ''@DisplayName("'' @ display_text g
      @ ''")'' @ ws_class g @ ''class'' @ ws_name g @ class_ident g @ rest)\<close>
    unfolding decl_text_def by (simp only: append_assoc)
  show ?thesis
    unfolding tx nested_re_head
    by (rule skip_to_marker [OF _ assms]) simp_all
qed

lemma nested_tail:
  assumes "\<not> str_in ''@Nested'' tail"
  shows "findall_from [] nested_classes_re tail False = []"
  unfolding nested_re_head
  by (rule no_match_without_marker [OF _ assms]) simp

lemma nested_hit:
  assumes g: "decl_ok g" and rest: "ends_run is_word rest"
  shows "findall_from [] nested_classes_re (decl_text g @ rest) False
         = (decl_text g, [display_text g, class_ident g]) # findall_from [] nested_classes_re rest False"
proof -
  from nested_first [OF g rest] obtain zs where
    m: "ms [] nested_classes_re (decl_text g @ rest) = ([display_text g, class_ident g], rest) # zs"
    unfolding first_is_def by blast
  have "decl_text g \<noteq> []"
    unfolding decl_text_def by simp
  then have "length rest \<noteq> length (decl_text g @ rest)"
    by simp
  with findall_from_hit [OF m] show ?thesis by simp
qed

lemma nested_scan:
  "groups_ok gs tail \<Longrightarrow>
     findall_from [] nested_classes_re (groups_text gs tail) False
     = map (\<lambda>g. (decl_text g, [display_text g, class_ident g])) gs"
proof (induction gs)
  case Nil
  then show ?case by (simp add: nested_tail)
next
  case (Cons g gs)
  then have g: "decl_ok g" and e: "ends_run is_word (groups_text gs tail)" and ok: "groups_ok gs tail"
    by simp_all
  from g have lead: "\<not> str_in ''@Nested'' (lead_text g)"
    unfolding decl_ok_def by simp
  have "findall_from [] nested_classes_re (groups_text (g # gs) tail) False
        = findall_from [] nested_classes_re (decl_text g @ groups_text gs tail) False"
    using nested_skip [OF lead] by simp
  also have "\<dots> = (decl_text g, [display_text g, class_ident g])
                  # findall_from [] nested_classes_re (groups_text gs tail) False"
    by (rule nested_hit [OF g e])
  finally show ?case using Cons.IH [OF ok] by simp
qed

text \<open>
  C4, as stated, fails: a declaration with the group marker and a display-name marker is
  not recognized when its quoted string is empty, nor when it holds an escaped quote.
\<close>

theorem nested_groups_counterexample:
  \<open>nested_classes (analyze ''@Nested @DisplayName("") class A {}'') = []
   \<and> nested_classes (analyze (''@Nested @DisplayName("a'' @ [CHR 0x5C] @ ''"b") class A {}'')) = []\<close>
proof -
  have 1: \<open>findall2 [] nested_classes_re ''@Nested @DisplayName("") class A {}'' = []\<close>
    by code_simp
  have 2: \<open>findall2 [] nested_classes_re (''@Nested @DisplayName("a'' @ [CHR 0x5C] @ ''"b") class A {}'') = []\<close>
    by code_simp
  show ?thesis
    unfolding analyze_fields 1 2 by simp
qed

text \<open>
  C4, amended. Let the text consist of \<open>N\<close> declarations, each of the form group marker,
  whitespace, display-name marker with a quoted string that is not empty and holds no
  double quote, whitespace, \<open>class\<close>, whitespace, name, with any text free of the group
  marker before, between and after them, and with each name followed by a character that
  cannot continue it. Then \<open>nested_classes\<close> has \<open>N\<close> pairs: the quoted strings and names
  of the declarations, exactly, in the order of the text.
\<close>

theorem nested_groups_found:
  assumes "groups_ok gs tail"
  shows "nested_classes (analyze (groups_text gs tail)) = map (\<lambda>g. (display_text g, class_ident g)) gs
         \<and> length (nested_classes (analyze (groups_text gs tail))) = length gs"
proof -
  have "nested_classes (analyze (groups_text gs tail)) = map (\<lambda>g. (display_text g, class_ident g)) gs"
    unfolding analyze_fields findall2_def nested_scan [OF assms] by simp
  then show ?thesis by simp
qed

theorem nested_groups_found_witness:
  \<open>groups_ok
      [\<lparr>lead_text = ''class T { '', ws_marker = '' '', display_text = ''a b'', ws_class = '' '',
        ws_name = '' '', class_ident = ''A''\<rparr>,
       \<lparr>lead_text = '' {} '', ws_marker = '' '', display_text = ''c'', ws_class = '' '',
        ws_name = '' '', class_ident = ''B''\<rparr>]
      '' {} }''
   \<and> nested_classes
        (analyze ''class T { @Nested @DisplayName("a b") class A {} @Nested @DisplayName("c") class B {} }'')
       = [(''a b'', ''A''), (''c'', ''B'')]\<close>
proof -
  let ?gs = \<open>[\<lparr>lead_text = ''class T { '', ws_marker = '' '', display_text = ''a b'', ws_class = '' '',
        ws_name = '' '', class_ident = ''A''\<rparr>,
       \<lparr>lead_text = '' {} '', ws_marker = '' '', display_text = ''c'', ws_class = '' '',
        ws_name = '' '', class_ident = ''B''\<rparr>]\<close>
  have ok: "groups_ok ?gs '' {} }''"
    by code_simp
  have tx: \<open>groups_text ?gs '' {} }''
      = ''class T { @Nested @DisplayName("a b") class A {} @Nested @DisplayName("c") class B {} }''\<close>
    by (simp add: decl_text_def)
  from nested_groups_found [OF ok] ok show ?thesis
    unfolding tx by simp
qed

lemma test_re_head:
  "test_methods_re =
     Seq (Lit ''@Test'') (Seq (Plus Space)
       (Seq (Star (Seq (Lit ''@'') (Seq (Plus Word) (Seq (Lit ''('') (Seq (StarLazy Dot)
               (Seq (Lit '')'') (Plus Space)))))))
         (Seq (Star (Seq (Lit ''@'') (Seq (Plus Word) (Plus Space))))
           (Seq (Plus Word) (Seq (Plus Space) (Seq (Lit ''void'') (Seq (Plus Space)
             (Group (Plus Word)))))))))"
  by (simp add: test_methods_re_def)

lemma no_annotation_at_ident:
  assumes fl: "IGNORECASE \<notin> set fl" and m: "is_ident m"
  shows "ms fl (Seq (Lit ''@'') r) (m @ t) = []"
proof -
  from m obtain x m' where x: "m = x # m'" "is_word x"
    unfolding is_ident_def by (cases m) auto
  then have "x \<noteq> CHR ''@''" using at_not_word by blast
  then have "\<not> starts_with ''@'' (m @ t)" using x(1) by simp
  then have "ms fl (Lit ''@'') (m @ t) = []" by (rule ms_Lit_none [OF fl])
  then show ?thesis by (rule ms_Seq_none)
qed

text \<open>
  A test-method declaration as the pattern expects it, after the text \<open>pre\<close>: the test
  marker, whitespace, one word \<open>m\<close> (a modifier such as \<open>public\<close>), whitespace, \<open>void\<close>,
  whitespace, the name.
\<close>

definition test_decl :: "string \<Rightarrow> string \<Rightarrow> string \<Rightarrow> string \<Rightarrow> string \<Rightarrow> string" where
  "test_decl w1 m w2 w3 n = ''@Test'' @ w1 @ m @ w2 @ ''void'' @ w3 @ n"

lemma test_first:
  assumes w1: "spaces w1" and m: "is_ident m" and w2: "spaces w2" and w3: "spaces w3"
    and n: "is_ident n" and post: "ends_run is_word post"
  shows "first_is [MULTILINE, DOTALL] test_methods_re (test_decl w1 m w2 w3 n @ post) [n] post"
proof -
  let ?fl = "[MULTILINE, DOTALL]"
  let ?t7 = "n @ post"
  let ?t6 = "w3 @ ?t7"
  let ?t5 = "''void'' @ ?t6"
  let ?t4 = "w2 @ ?t5"
  let ?t3 = "m @ ?t4"
  let ?t2 = "w1 @ ?t3"
  let ?A1 = "Seq (Lit ''@'') (Seq (Plus Word) (Seq (Lit ''('') (Seq (StarLazy Dot)
               (Seq (Lit '')'') (Plus Space)))))"
  let ?A2 = "Seq (Lit ''@'') (Seq (Plus Word) (Plus Space))"
  have fl: "IGNORECASE \<notin> set ?fl" by simp
  have 8: "first_is ?fl (Group (Plus Word)) ?t7 [n] post"
    by (rule first_ident_group [OF n post])
  have 7: "first_is ?fl (Plus Space) ?t6 [] ?t7"
    by (rule first_spaces [OF w3 ends_run_ident [OF n]])
  have 6: "first_is ?fl (Lit ''void'') ?t5 [] ?t6"
    by (rule first_Lit [OF fl])
  have 5: "first_is ?fl (Plus Space) ?t4 [] ?t5"
    by (rule first_spaces [OF w2]) (simp add: letters_not_space)
  have 4: "first_is ?fl (Plus Word) ?t3 [] ?t4"
    by (rule first_ident [OF m ends_run_spaces [OF w2]])
  have 3: "first_is ?fl (Star ?A2) ?t3 [] ?t3"
    by (rule first_Star_none [OF no_annotation_at_ident [OF fl m]])
  have s1: "first_is ?fl (Star ?A1) ?t3 [] ?t3"
    by (rule first_Star_none [OF no_annotation_at_ident [OF fl m]])
  have 2: "first_is ?fl (Plus Space) ?t2 [] ?t3"
    by (rule first_spaces [OF w1 ends_run_ident [OF m]])
  have 1: "first_is ?fl (Lit ''@Test'') (''@Test'' @ ?t2) [] ?t2"
    by (rule first_Lit [OF fl])
  note a = first_Seq_nil [OF 7 8]
  note b = first_Seq_nil [OF 6 a]
  note c = first_Seq_nil [OF 5 b]
  note d = first_Seq_nil [OF 4 c]
  note e = first_Seq_nil [OF 3 d]
  note f = first_Seq_nil [OF s1 e]
  note g = first_Seq_nil [OF 2 f]
  note h = first_Seq_nil [OF 1 g]
  have tx: "test_decl w1 m w2 w3 n @ post = ''@Test'' @ ?t2"
    unfolding test_decl_def by (simp only: append_assoc)
  from h show ?thesis
    unfolding test_re_head tx by (simp only: append_Cons append_Nil)
qed

lemma test_skip:
  assumes "\<not> str_in ''@Test'' pre"
  shows "findall_from [MULTILINE, DOTALL] test_methods_re (pre @ test_decl w1 m w2 w3 n @ post) False
         = findall_from [MULTILINE, DOTALL] test_methods_re (test_decl w1 m w2 w3 n @ post) False"
proof -
  have tx: "test_decl w1 m w2 w3 n @ post = ''@Test'' @ (w1 @ m @ w2 @ ''void'' @ w3 @ n @ post)"
    unfolding test_decl_def by (simp only: append_assoc)
  show ?thesis
    unfolding tx test_re_head
    by (rule skip_to_marker [OF _ assms]) simp_all
qed

lemma test_tail:
  assumes "\<not> str_in ''@Test'' post"
  shows "findall_from [MULTILINE, DOTALL] test_methods_re post False = []"
  unfolding test_re_head
  by (rule no_match_without_marker [OF _ assms]) simp

text \<open>
  What the test-method pattern does recognize: a declaration of the form test marker,
  whitespace, one word (a modifier), whitespace, \<open>void\<close>, whitespace, name, in a text that
  holds the test marker nowhere else, with the name followed by a character that cannot
  continue it or by the end of the text. Then \<open>test_methods\<close> is the list of that one name.
\<close>

lemma one_modifier_test_method:
  assumes "\<not> str_in ''@Test'' pre" and "spaces w1" and "is_ident m" and "spaces w2"
    and "spaces w3" and "is_ident n" and "ends_run is_word post" and "\<not> str_in ''@Test'' post"
  shows "test_methods (analyze (pre @ ''@Test'' @ w1 @ m @ w2 @ ''void'' @ w3 @ n @ post)) = [n]"
proof -
  let ?fl = "[MULTILINE, DOTALL]"
  let ?d = "test_decl w1 m w2 w3 n"
  have tx: "pre @ ''@Test'' @ w1 @ m @ w2 @ ''void'' @ w3 @ n @ post = pre @ ?d @ post"
    unfolding test_decl_def by (simp only: append_assoc)
  from test_first [OF assms(2-7)] obtain zs where
    m: "ms ?fl test_methods_re (?d @ post) = ([n], post) # zs"
    unfolding first_is_def by blast
  have "?d \<noteq> []"
    unfolding test_decl_def by simp
  then have ne: "length post \<noteq> length (?d @ post)"
    by simp
  have "findall_from ?fl test_methods_re (pre @ ?d @ post) False
        = findall_from ?fl test_methods_re (?d @ post) False"
    by (rule test_skip [OF assms(1)])
  also have "\<dots> = (?d, [n]) # findall_from ?fl test_methods_re post False"
    using findall_from_hit [OF m] ne by simp
  also have "\<dots> = [(?d, [n])]"
    by (simp add: test_tail [OF assms(8)])
  finally show ?thesis
    unfolding analyze_fields findall_def tx by simp
qed

text \<open>
  C3. One test-method declaration with the test marker and no other annotation should give
  exactly its name. The code gives it only when exactly one word stands between the marker
  and \<open>void\<close>: the plain declaration \<open>@Test void foo() {}\<close> gives no name, the same
  declaration with one modifier gives \<open>foo\<close>, with two modifiers it gives no name again,
  and of a plain and a modified declaration in one text only the modified one is found.
\<close>

theorem modifierless_test_missed:
  "test_methods (analyze ''@Test void foo() {}'') = []
   \<and> test_methods (analyze ''@Test public void foo() {}'') = [''foo'']
   \<and> test_methods (analyze ''@Test public final void foo() {}'') = []
   \<and> test_methods (analyze ''@Test void a() {} @Test public void b() {}'') = [''b'']"
proof -
  have 1: "findall [MULTILINE, DOTALL] test_methods_re ''@Test void foo() {}'' = []"
    by code_simp
  have 2: "findall [MULTILINE, DOTALL] test_methods_re ''@Test public void foo() {}'' = [''foo'']"
    by code_simp
  have 3: "findall [MULTILINE, DOTALL] test_methods_re ''@Test public final void foo() {}'' = []"
    by code_simp
  have 4: "findall [MULTILINE, DOTALL] test_methods_re ''@Test void a() {} @Test public void b() {}''
             = [''b'']"
    by code_simp
  show ?thesis
    unfolding analyze_fields 1 2 3 4 by simp
qed

section \<open>Patterns that stay within a line\<close>






















end
